theory Spec2Isabelle
  imports Main "HOL-Library.Word"
begin

section \<open>Errors\<close>

text \<open>
  Every error value the two connectors build or pass on. \<open>Opaque\<close> stands for an error
  produced outside the connectors (the store, the interpolation compiler, the duration
  parser); the other constructors are the \<^verbatim>\<open>fmt.Errorf\<close> wrappers of the sources.
\<close>

datatype error =
    Opaque string
  | ContextCanceled
  | NumError string
  | KeyExpressionError error
  | TTLExpressionError error
  | CacheNotFound string
  | TTLFieldError error
  | OperatorNotRecognised string
  | ArgsMappingFailed error
  | NonArrayResult
  | OperatorFailed error

section \<open>The cache output (output\_cache.go)\<close>

subsection \<open>Parts, batches and interpolated fields\<close>

text \<open>
  A part of the internal message package is read by the writer through \<^verbatim>\<open>Get()\<close> only,
  which yields its bytes; the metadata is there for the interpolation functions to read.
  A batch is the list of its parts.
\<close>

record part =
  data :: string
  part_metadata :: "(string \<times> string) list"

type_synonym batch = "part list"

text \<open>
  Modelled from the spec: \<^verbatim>\<open>msg.Get(0)\<close>, the accessor of the message package, is not
  among the sources. Inside the batch it is the part at that index (a batch is an ordered
  sequence of messages, identified by position); out of range it is taken to give a fresh
  empty part. The writer reaches the second case on an empty batch only, and no theorem
  below is about that case.
\<close>

definition batch_Get :: "batch \<Rightarrow> nat \<Rightarrow> part" where
  "batch_Get msg i =
     (if i < length msg then msg ! i else \<lparr>data = [], part_metadata = []\<rparr>)"

text \<open>
  A compiled expression (\<^verbatim>\<open>*field.Expression\<close>) is the function its \<^verbatim>\<open>String(i, msg)\<close>
  method computes: from an index and the batch to the resolved string.
\<close>

type_synonym expression = "nat \<Rightarrow> batch \<Rightarrow> string"

subsection \<open>The cache, the manager and the world\<close>

text \<open>A duration is Go's \<^verbatim>\<open>time.Duration\<close>, a count of nanoseconds.\<close>

type_synonym duration = int

record TTLItem =
  Value :: string
  TTL :: "duration option"

text \<open>
  The calls that reach the external store. The argument of \<^verbatim>\<open>SetMulti\<close> is a Go map
  from key to item.
\<close>

datatype call =
    SetCall string string "duration option"
  | SetMultiCall "string \<rightharpoonup> TTLItem"

text \<open>
  A handle on a cache (\<^verbatim>\<open>cache.V1\<close>): the two operations the writer uses, each a
  transition of the store's state that may answer with an error.
\<close>

record 's cacheV1 =
  Set :: "string \<Rightarrow> string \<Rightarrow> duration option \<Rightarrow> 's \<Rightarrow> error option \<times> 's"
  SetMulti :: "(string \<rightharpoonup> TTLItem) \<Rightarrow> 's \<Rightarrow> error option \<times> 's"

text \<open>
  Modelled from the spec: the manager (\<^verbatim>\<open>bundle.NewManagement\<close>) is not among the
  sources; it is the registry contract "resolve(name) gives a handle and whether it exists",
  as the writer uses it: compiling a template, probing a cache by name, and reaching a
  cache by name. \<^verbatim>\<open>AccessCache\<close> either hands the cache to the closure or answers with an
  error of its own without running it. The three are independent parameters: the registry
  may change between construction and a write.
\<close>

record 's management =
  NewField :: "string \<Rightarrow> error + expression"
  ProbeCache :: "string \<Rightarrow> bool"
  AccessCache :: "string \<Rightarrow> error + 's cacheV1"

text \<open>
  What the writer can change: the state of the external store. Two logs are kept beside
  it so that theorems can count: the calls made on the store, and the templates handed
  to the compiler, both in order.
\<close>

record 's world =
  store :: 's
  calls :: "call list"
  compiled :: "string list"

record CacheConfig =
  Target :: string
  Key :: string
  TTL_template :: string
  MaxInFlight :: int

record 's CacheWriter =
  conf :: CacheConfig
  mgr :: "'s management"
  key :: expression
  ttl :: expression

subsection \<open>NewCacheWriter\<close>

definition compile :: "'s management \<Rightarrow> string \<Rightarrow> 's world \<Rightarrow> (error + expression) \<times> 's world" where
  "compile m template w = (NewField m template, w\<lparr>compiled := compiled w @ [template]\<rparr>)"

definition NewCacheWriter ::
  "CacheConfig \<Rightarrow> 's management \<Rightarrow> 's world \<Rightarrow> (error + 's CacheWriter) \<times> 's world" where
  "NewCacheWriter cnf m w =
     (case compile m (Key cnf) w of
        (Inl e, w1) \<Rightarrow> (Inl (KeyExpressionError e), w1)
      | (Inr k, w1) \<Rightarrow>
          (case compile m (TTL_template cnf) w1 of
             (Inl e, w2) \<Rightarrow> (Inl (TTLExpressionError e), w2)
           | (Inr t, w2) \<Rightarrow>
               if \<not> ProbeCache m (Target cnf) then (Inl (CacheNotFound (Target cnf)), w2)
               else (Inr \<lparr>conf = cnf, mgr = m, key = k, ttl = t\<rparr>, w2)))"

text \<open>
  The constructor registered in \<^verbatim>\<open>init\<close>: the writer is built first, and only a writer
  that was built is wrapped by \<^verbatim>\<open>output.NewAsyncWriter\<close> (not among the sources, a
  parameter \<open>naw\<close> here) into the output that will receive batches.
\<close>

definition cache_output_constructor ::
  "(string \<Rightarrow> int \<Rightarrow> 's CacheWriter \<Rightarrow> error + 'o) \<Rightarrow> CacheConfig \<Rightarrow> 's management \<Rightarrow>
   's world \<Rightarrow> (error + 'o) \<times> 's world" where
  "cache_output_constructor naw cnf m w =
     (case NewCacheWriter cnf m w of
        (Inl err, w1) \<Rightarrow> (Inl err, w1)
      | (Inr ca, w1) \<Rightarrow> (naw ''cache'' (MaxInFlight cnf) ca, w1))"

subsection \<open>Writing\<close>

text \<open>
  The optional TTL of one index, as both paths compute it: an empty resolved string is
  no TTL, anything else is parsed. \<^verbatim>\<open>time.ParseDuration\<close> belongs to the Go library and
  is a parameter \<open>pd\<close> here.
\<close>

definition resolve_ttl ::
  "(string \<Rightarrow> error + duration) \<Rightarrow> expression \<Rightarrow> nat \<Rightarrow> batch \<Rightarrow> error + duration option" where
  "resolve_ttl pd t i msg =
     (let ttls = t i msg in
      if ttls \<noteq> [] then
        (case pd ttls of
           Inl terr \<Rightarrow> Inl (TTLFieldError terr)
         | Inr d \<Rightarrow> Inr (Some d))
      else Inr None)"

text \<open>
  The closure of \<^verbatim>\<open>msg.Iter\<close> in \<^verbatim>\<open>writeMulti\<close>, run over the parts in order from index
  \<open>i\<close>: the first TTL that does not parse ends the iteration with its error, otherwise
  the item is stored in the map under the resolved key.
\<close>

fun iter_items ::
  "(string \<Rightarrow> error + duration) \<Rightarrow> 's CacheWriter \<Rightarrow> batch \<Rightarrow> nat \<Rightarrow> part list \<Rightarrow>
   (string \<rightharpoonup> TTLItem) \<Rightarrow> error + (string \<rightharpoonup> TTLItem)" where
  "iter_items pd c msg i [] items = Inr items"
| "iter_items pd c msg i (p # ps) items =
     (case resolve_ttl pd (ttl c) i msg of
        Inl e \<Rightarrow> Inl e
      | Inr t \<Rightarrow>
          iter_items pd c msg (Suc i) ps
            (items(key c i msg \<mapsto> \<lparr>Value = data p, TTL = t\<rparr>)))"

definition do_Set ::
  "'s cacheV1 \<Rightarrow> string \<Rightarrow> string \<Rightarrow> duration option \<Rightarrow> 's world \<Rightarrow> error option \<times> 's world" where
  "do_Set ac k v t w =
     (let (r, s') = Set ac k v t (store w)
      in (r, w\<lparr>store := s', calls := calls w @ [SetCall k v t]\<rparr>))"

definition do_SetMulti ::
  "'s cacheV1 \<Rightarrow> (string \<rightharpoonup> TTLItem) \<Rightarrow> 's world \<Rightarrow> error option \<times> 's world" where
  "do_SetMulti ac items w =
     (let (r, s') = SetMulti ac items (store w)
      in (r, w\<lparr>store := s', calls := calls w @ [SetMultiCall items]\<rparr>))"

definition writeMulti ::
  "(string \<Rightarrow> error + duration) \<Rightarrow> 's CacheWriter \<Rightarrow> batch \<Rightarrow> 's world \<Rightarrow> error option \<times> 's world" where
  "writeMulti pd c msg w =
     (case AccessCache (mgr c) (Target (conf c)) of
        Inl cerr \<Rightarrow> (Some cerr, w)
      | Inr ac \<Rightarrow>
          (case iter_items pd c msg 0 msg Map.empty of
             Inl e \<Rightarrow> (Some e, w)
           | Inr items \<Rightarrow> do_SetMulti ac items w))"

definition WriteWithContext ::
  "(string \<Rightarrow> error + duration) \<Rightarrow> 's CacheWriter \<Rightarrow> batch \<Rightarrow> 's world \<Rightarrow> error option \<times> 's world" where
  "WriteWithContext pd c msg w =
     (if length msg > 1 then writeMulti pd c msg w
      else
        (case AccessCache (mgr c) (Target (conf c)) of
           Inl cerr \<Rightarrow> (Some cerr, w)
         | Inr ac \<Rightarrow>
             (case resolve_ttl pd (ttl c) 0 msg of
                Inl e \<Rightarrow> (Some e, w)
              | Inr t \<Rightarrow> do_Set ac (key c 0 msg) (data (batch_Get msg 0)) t w)))"

section \<open>The redis processor (part\_000)\<close>

subsection \<open>Values and messages\<close>

text \<open>
  Structured values are Go's \<^verbatim>\<open>interface{}\<close> as the JSON decoder and the client produce
  them. \<open>VNumber\<close> is a \<^verbatim>\<open>json.Number\<close> (its text); a float64 is carried as its 64 bits.
\<close>

type_synonym float64 = "64 word"

datatype ivalue =
    VNil
  | VBool bool
  | VString string
  | VNumber string
  | VInt int
  | VFloat float64
  | VArray "ivalue list"
  | VObject "(string \<times> ivalue) list"

text \<open>
  Modelled from the spec: the message type of the service package is not among the
  sources. Following the data model, a message is a payload (raw bytes, or a decoded
  structured value), metadata, and an attachable item error; the setters replace the
  payload or attach the error and touch nothing else, and \<^verbatim>\<open>Copy\<close> gives a batch of the
  same messages, so that what the processor changes is not seen through the input batch.
\<close>

datatype payload = Raw string | Structured ivalue

record message =
  body :: payload
  metadata :: "(string \<times> string) list"
  item_error :: "error option"

type_synonym MessageBatch = "message list"

text \<open>
  Modelled from the spec: the setters of a message (\<^verbatim>\<open>SetBytes\<close>, \<^verbatim>\<open>SetStructured\<close>,
  \<^verbatim>\<open>SetError\<close>) are not among the sources; each replaces its own field of the message.
\<close>

definition SetBytes :: "string \<Rightarrow> message \<Rightarrow> message" where
  "SetBytes b m = m\<lparr>body := Raw b\<rparr>"

definition SetStructured :: "ivalue \<Rightarrow> message \<Rightarrow> message" where
  "SetStructured v m = m\<lparr>body := Structured v\<rparr>"

definition SetError :: "error \<Rightarrow> message \<Rightarrow> message" where
  "SetError e m = m\<lparr>item_error := Some e\<rparr>"

text \<open>
  Modelled from the spec: \<^verbatim>\<open>MessageBatch.Copy\<close> is not among the sources; the copy holds
  the same messages in the same order, whatever they carry.
\<close>

definition Copy :: "MessageBatch \<Rightarrow> MessageBatch" where
  "Copy b = b"

text \<open>
  What the processor needs from outside the repository and cannot be written down here:
  the JSON encoder and decoder behind \<^verbatim>\<open>AsBytes\<close> and \<^verbatim>\<open>AsStructured\<close>, and
  \<^verbatim>\<open>strconv.ParseFloat\<close> behind \<^verbatim>\<open>json.Number.Float64\<close>. They are parameters.
\<close>

record library =
  marshal :: "ivalue \<Rightarrow> error + string"
  unmarshal :: "string \<Rightarrow> error + ivalue"
  ParseFloat :: "string \<Rightarrow> error + float64"

text \<open>
  Modelled from the spec: \<^verbatim>\<open>AsBytes\<close> and \<^verbatim>\<open>AsStructured\<close> are not among the sources;
  each gives the payload in the form asked for, converting with the encoder or the decoder
  when the message holds the other form, which may fail.
\<close>

definition AsBytes :: "library \<Rightarrow> message \<Rightarrow> error + string" where
  "AsBytes L m = (case body m of Raw b \<Rightarrow> Inr b | Structured v \<Rightarrow> marshal L v)"

definition AsStructured :: "library \<Rightarrow> message \<Rightarrow> error + ivalue" where
  "AsStructured L m = (case body m of Structured v \<Rightarrow> Inr v | Raw b \<Rightarrow> unmarshal L b)"

subsection \<open>strconv\<close>

text \<open>
  \<^verbatim>\<open>strconv.Atoi\<close> and \<^verbatim>\<open>json.Number.Int64\<close> (which is \<^verbatim>\<open>ParseInt(s, 10, 64)\<close>): an
  optional sign, at least one decimal digit, nothing else, and the value within 64 bits.
  \<^verbatim>\<open>strconv.AppendInt(nil, n, 10)\<close> writes a number in decimal.
\<close>

definition digit_value :: "char \<Rightarrow> nat option" where
  "digit_value ch =
     (let n = (of_char ch :: nat) in if 48 \<le> n \<and> n \<le> 57 then Some (n - 48) else None)"

fun digits_value :: "nat \<Rightarrow> string \<Rightarrow> nat option" where
  "digits_value acc [] = Some acc"
| "digits_value acc (ch # cs) =
     (case digit_value ch of
        None \<Rightarrow> None
      | Some d \<Rightarrow> digits_value (acc * 10 + d) cs)"

definition ParseInt :: "string \<Rightarrow> error + int" where
  "ParseInt s =
     (let (neg, ds) =
            (case s of
               [] \<Rightarrow> (False, [])
             | ch # cs \<Rightarrow>
                 if ch = CHR ''-'' then (True, cs)
                 else if ch = CHR ''+'' then (False, cs)
                 else (False, s))
      in if ds = [] then Inl (NumError s)
         else
           (case digits_value 0 ds of
              None \<Rightarrow> Inl (NumError s)
            | Some n \<Rightarrow>
                let v = (if neg then - int n else int n)
                in if v < - (2 ^ 63) \<or> 2 ^ 63 \<le> v then Inl (NumError s) else Inr v))"

definition Atoi :: "string \<Rightarrow> error + int" where
  "Atoi s = ParseInt s"

definition digit_char :: "nat \<Rightarrow> char" where
  "digit_char d = ''0123456789'' ! d"

fun decimal :: "nat \<Rightarrow> string" where
  "decimal n =
     (if n < 10 then [digit_char n]
      else decimal (n div 10) @ [digit_char (n mod 10)])"

definition AppendInt :: "int \<Rightarrow> string" where
  "AppendInt i = (if i < 0 then CHR ''-'' # decimal (nat (- i)) else decimal (nat i))"

subsection \<open>The client, the clock and the trace\<close>

text \<open>
  The external store is reached through the client only. Each method is a transition of
  the store's state \<open>'c\<close> that answers with a result or an error; \<^verbatim>\<open>DoContext\<close> is also
  told whether its context is already cancelled. The world of the processor is that state,
  a clock, and a trace of what was done: every call of the client with its error, and
  every delay. The writes to the logger are left out.
\<close>

datatype request =
    KeysReq string
  | SCardReq string
  | SAddReq string string
  | IncrByReq string int
  | DoReq bool "ivalue list"

datatype event =
    Invoked request "error option"
  | Slept duration

record 'c redisClient =
  Keys :: "string \<Rightarrow> 'c \<Rightarrow> (error + string list) \<times> 'c"
  SCard :: "string \<Rightarrow> 'c \<Rightarrow> (error + int) \<times> 'c"
  SAdd :: "string \<Rightarrow> string \<Rightarrow> 'c \<Rightarrow> (error + int) \<times> 'c"
  IncrBy :: "string \<Rightarrow> int \<Rightarrow> 'c \<Rightarrow> (error + int) \<times> 'c"
  DoContext :: "bool \<Rightarrow> ivalue list \<Rightarrow> 'c \<Rightarrow> (error + ivalue) \<times> 'c"

record 'c rworld =
  client_state :: 'c
  now :: int
  trace :: "event list"

text \<open>
  A context is the instant at which it is cancelled, if ever; it is done from that
  instant on.
\<close>

type_synonym Context = "int option"

definition ctx_done :: "Context \<Rightarrow> 'c rworld \<Rightarrow> bool" where
  "ctx_done ctx w = (case ctx of None \<Rightarrow> False | Some t \<Rightarrow> t \<le> now w)"

definition err_of :: "error + 'a \<Rightarrow> error option" where
  "err_of r = (case r of Inl e \<Rightarrow> Some e | Inr _ \<Rightarrow> None)"

definition invoke ::
  "request \<Rightarrow> ('c \<Rightarrow> (error + 'a) \<times> 'c) \<Rightarrow> 'c rworld \<Rightarrow> (error + 'a) \<times> 'c rworld" where
  "invoke req f w =
     (let (res, s') = f (client_state w)
      in (res, w\<lparr>client_state := s', trace := trace w @ [Invoked req (err_of res)]\<rparr>))"

definition sleep :: "duration \<Rightarrow> 'c rworld \<Rightarrow> 'c rworld" where
  "sleep d w = w\<lparr>now := now w + max 0 d, trace := trace w @ [Slept d]\<rparr>"

text \<open>
  How a call of the processor ends. Beside returning, the Go code can panic (a nil
  pointer is dereferenced) or never return (a retry loop that does not end).
\<close>

datatype 'a run = Returns 'a | Panics | Diverges

text \<open>
  The processor. The operator is one of four closures, here its tag; \<^verbatim>\<open>ProcessBatch\<close>
  takes the operator path when it is set and the command path otherwise. The constructor
  leaves \<^verbatim>\<open>key\<close> nil when the field is absent and \<^verbatim>\<open>argsMapping\<close> nil when
  \<^verbatim>\<open>args_mapping\<close> is empty, so both are optional here; \<^verbatim>\<open>command\<close> has a default and is
  always set. A key is the function its compiled form computes on an index and a batch.
  A mapping is the function \<^verbatim>\<open>BloblangQuery\<close> computes with it: an error, or a message, or
  no message and no error when the mapping deletes its root. \<^verbatim>\<open>retries\<close> is a Go
  \<^verbatim>\<open>int\<close> of 64 bits, an \<open>int\<close> here between \<open>- 2 ^ 63\<close> and \<open>2 ^ 63 - 1\<close>.
\<close>

datatype operator_kind = OpKeys | OpSAdd | OpSCard | OpIncrBy

type_synonym interpolated = "nat \<Rightarrow> MessageBatch \<Rightarrow> string"

type_synonym mapping = "nat \<Rightarrow> MessageBatch \<Rightarrow> error + message option"

record 'c redisProc =
  proc_key :: "interpolated option"
  operator :: "operator_kind option"
  command :: interpolated
  argsMapping :: "mapping option"
  client :: "'c redisClient"
  retries :: int
  retryPeriod :: duration

subsection \<open>The retry loop\<close>

text \<open>
  All five retry loops of the file have the same shape,
  \<^verbatim>\<open>res, err := call(); for i := 0; i <= r.retries && err != nil; i++ { log; <-time.After(r.retryPeriod); res, err = call() }\<close>,
  and differ in the call only. \<open>retry_loop\<close> is the \<^verbatim>\<open>for\<close> statement from counter \<open>i\<close>
  on, \<open>with_retries\<close> the first call followed by the loop. The delay waits on the timer
  alone: no context is consulted. The counter is a Go \<^verbatim>\<open>int\<close>: \<^verbatim>\<open>i++\<close> on the largest
  value wraps to the smallest, so with \<^verbatim>\<open>retries\<close> at that largest value the condition on
  \<open>i\<close> never fails and the loop ends only when a call succeeds. A loop that never ends
  is the value \<open>None\<close>.
\<close>

definition next_counter :: "int \<Rightarrow> int" where
  "next_counter i = (if i = 2 ^ 63 - 1 then - (2 ^ 63) else i + 1)"

partial_function (option) retry_loop ::
  "('c rworld \<Rightarrow> (error + 'a) \<times> 'c rworld) \<Rightarrow> int \<Rightarrow> duration \<Rightarrow> int \<Rightarrow>
   (error + 'a) \<Rightarrow> 'c rworld \<Rightarrow> ((error + 'a) \<times> 'c rworld) option" where
  "retry_loop call n period i res w =
     (if i \<le> n \<and> isl res then
        (let w1 = sleep period w;
             r = call w1
         in retry_loop call n period (next_counter i) (fst r) (snd r))
      else Some (res, w))"

definition with_retries ::
  "('c rworld \<Rightarrow> (error + 'a) \<times> 'c rworld) \<Rightarrow> int \<Rightarrow> duration \<Rightarrow>
   'c rworld \<Rightarrow> ((error + 'a) \<times> 'c rworld) option" where
  "with_retries call n period w =
     (let r = call w in retry_loop call n period 0 (fst r) (snd r))"

definition call_DoContext ::
  "'c redisClient \<Rightarrow> Context \<Rightarrow> ivalue list \<Rightarrow> 'c rworld \<Rightarrow> (error + ivalue) \<times> 'c rworld" where
  "call_DoContext cl ctx args w =
     invoke (DoReq (ctx_done ctx w) args) (DoContext cl (ctx_done ctx w) args) w"

text \<open>
  The retry policy in the words of its description: call the operation; after an error
  sleep the delay and call again. \<open>attempt call period w k\<close> is the outcome of the call
  number \<open>k\<close> (counted from 0) and the world after it, when every call before it has been
  followed by one full delay.
\<close>

primrec attempt ::
  "('c rworld \<Rightarrow> (error + 'a) \<times> 'c rworld) \<Rightarrow> duration \<Rightarrow> 'c rworld \<Rightarrow> nat \<Rightarrow>
   (error + 'a) \<times> 'c rworld" where
  "attempt call period w 0 = call w"
| "attempt call period w (Suc k) = call (sleep period (snd (attempt call period w k)))"

text \<open>Counting the calls and the delays of a trace.\<close>

definition invocations :: "event list \<Rightarrow> nat" where
  "invocations evs = length (filter (\<lambda>ev. case ev of Invoked _ _ \<Rightarrow> True | Slept _ \<Rightarrow> False) evs)"

definition sleeps :: "event list \<Rightarrow> nat" where
  "sleeps evs = length (filter (\<lambda>ev. case ev of Invoked _ _ \<Rightarrow> False | Slept _ \<Rightarrow> True) evs)"

subsection \<open>Operators\<close>

text \<open>
  What each operator does once its retried call is over: the loop may never end, the
  call may have failed to the last, or its result is set on the message.
\<close>

definition newRedisKeysOperator ::
  "'c redisProc \<Rightarrow> string \<Rightarrow> message \<Rightarrow> 'c rworld \<Rightarrow> ((error + message) \<times> 'c rworld) run" where
  "newRedisKeysOperator r k part w =
     (case with_retries (invoke (KeysReq k) (Keys (client r) k)) (retries r) (retryPeriod r) w of
        None \<Rightarrow> Diverges
      | Some (Inl err, w1) \<Rightarrow> Returns (Inl err, w1)
      | Some (Inr res, w1) \<Rightarrow> Returns (Inr (SetStructured (VArray (map VString res)) part), w1))"

definition newRedisSCardOperator ::
  "'c redisProc \<Rightarrow> string \<Rightarrow> message \<Rightarrow> 'c rworld \<Rightarrow> ((error + message) \<times> 'c rworld) run" where
  "newRedisSCardOperator r k part w =
     (case with_retries (invoke (SCardReq k) (SCard (client r) k)) (retries r) (retryPeriod r) w of
        None \<Rightarrow> Diverges
      | Some (Inl err, w1) \<Rightarrow> Returns (Inl err, w1)
      | Some (Inr res, w1) \<Rightarrow> Returns (Inr (SetBytes (AppendInt res) part), w1))"

definition newRedisSAddOperator ::
  "library \<Rightarrow> 'c redisProc \<Rightarrow> string \<Rightarrow> message \<Rightarrow> 'c rworld \<Rightarrow>
   ((error + message) \<times> 'c rworld) run" where
  "newRedisSAddOperator L r k part w =
     (case AsBytes L part of
        Inl err \<Rightarrow> Returns (Inl err, w)
      | Inr mBytes \<Rightarrow>
          (case with_retries (invoke (SAddReq k mBytes) (SAdd (client r) k mBytes))
                  (retries r) (retryPeriod r) w of
             None \<Rightarrow> Diverges
           | Some (Inl err, w1) \<Rightarrow> Returns (Inl err, w1)
           | Some (Inr res, w1) \<Rightarrow> Returns (Inr (SetBytes (AppendInt res) part), w1)))"

definition newRedisIncrByOperator ::
  "library \<Rightarrow> 'c redisProc \<Rightarrow> string \<Rightarrow> message \<Rightarrow> 'c rworld \<Rightarrow>
   ((error + message) \<times> 'c rworld) run" where
  "newRedisIncrByOperator L r k part w =
     (case AsBytes L part of
        Inl err \<Rightarrow> Returns (Inl err, w)
      | Inr mBytes \<Rightarrow>
          (case Atoi mBytes of
             Inl err \<Rightarrow> Returns (Inl err, w)
           | Inr valueInt \<Rightarrow>
               (case with_retries (invoke (IncrByReq k valueInt) (IncrBy (client r) k valueInt))
                       (retries r) (retryPeriod r) w of
                  None \<Rightarrow> Diverges
                | Some (Inl err, w1) \<Rightarrow> Returns (Inl err, w1)
                | Some (Inr res, w1) \<Rightarrow> Returns (Inr (SetBytes (AppendInt res) part), w1))))"

definition getRedisOperator :: "string \<Rightarrow> error + operator_kind" where
  "getRedisOperator opStr =
     (if opStr = ''keys'' then Inr OpKeys
      else if opStr = ''sadd'' then Inr OpSAdd
      else if opStr = ''scard'' then Inr OpSCard
      else if opStr = ''incrby'' then Inr OpIncrBy
      else Inl (OperatorNotRecognised opStr))"

fun run_operator ::
  "operator_kind \<Rightarrow> library \<Rightarrow> 'c redisProc \<Rightarrow> string \<Rightarrow> message \<Rightarrow> 'c rworld \<Rightarrow>
   ((error + message) \<times> 'c rworld) run" where
  "run_operator OpKeys L r k part w = newRedisKeysOperator r k part w"
| "run_operator OpSAdd L r k part w = newRedisSAddOperator L r k part w"
| "run_operator OpSCard L r k part w = newRedisSCardOperator r k part w"
| "run_operator OpIncrBy L r k part w = newRedisIncrByOperator L r k part w"

subsection \<open>execRaw and ProcessBatch\<close>

text \<open>
  The loop over the arguments: a \<^verbatim>\<open>json.Number\<close> becomes an integer if it parses as one,
  else a float, else its text; every other value is left as it is.
\<close>

definition normalise :: "library \<Rightarrow> ivalue \<Rightarrow> ivalue" where
  "normalise L v =
     (case v of
        VNumber n \<Rightarrow>
          (case ParseInt n of
             Inr i \<Rightarrow> VInt i
           | Inl _ \<Rightarrow>
               (case ParseFloat L n of
                  Inr f \<Rightarrow> VFloat f
                | Inl _ \<Rightarrow> VString n))
      | _ \<Rightarrow> v)"

text \<open>
  \<^verbatim>\<open>execRaw\<close> hands \<^verbatim>\<open>r.argsMapping\<close> to \<^verbatim>\<open>BloblangQuery\<close> and calls \<^verbatim>\<open>AsStructured\<close> on
  the message it gets back, checking the error only: a mapping that was never set and a
  mapping that gives no message are both nil pointers dereferenced, a panic.
\<close>

definition execRaw ::
  "library \<Rightarrow> 'c redisProc \<Rightarrow> Context \<Rightarrow> nat \<Rightarrow> MessageBatch \<Rightarrow> message \<Rightarrow> 'c rworld \<Rightarrow>
   ((error + message) \<times> 'c rworld) run" where
  "execRaw L r ctx index inBatch msg w =
     (case argsMapping r of
        None \<Rightarrow> Panics
      | Some query \<Rightarrow>
          (case query index inBatch of
             Inl err \<Rightarrow> Returns (Inl (ArgsMappingFailed err), w)
           | Inr None \<Rightarrow> Panics
           | Inr (Some resMsg) \<Rightarrow>
               (case AsStructured L resMsg of
                  Inl err \<Rightarrow> Returns (Inl err, w)
                | Inr iargs \<Rightarrow>
                    (case iargs of
                       VArray args0 \<Rightarrow>
                         (let args1 = map (normalise L) args0;
                              cmd = command r index inBatch;
                              args = VString cmd # args1
                          in case with_retries (call_DoContext (client r) ctx args)
                                    (retries r) (retryPeriod r) w of
                               None \<Rightarrow> Diverges
                             | Some (Inl err, w1) \<Rightarrow> Returns (Inl err, w1)
                             | Some (Inr res, w1) \<Rightarrow> Returns (Inr (SetStructured res msg), w1))
                     | _ \<Rightarrow> Returns (Inl NonArrayResult, w)))))"

text \<open>
  The body of the loop of \<^verbatim>\<open>ProcessBatch\<close> for one index, and the loop itself. In
  operator mode the key is resolved first, a nil pointer dereferenced when the key was
  never set. A panic or a loop that never ends at one index ends the whole call there.
\<close>

definition process_part ::
  "library \<Rightarrow> 'c redisProc \<Rightarrow> Context \<Rightarrow> MessageBatch \<Rightarrow> nat \<Rightarrow> message \<Rightarrow> 'c rworld \<Rightarrow>
   (message \<times> 'c rworld) run" where
  "process_part L r ctx inBatch index part w =
     (case operator r of
        Some op \<Rightarrow>
          (case proc_key r of
             None \<Rightarrow> Panics
           | Some resolve \<Rightarrow>
               (let k = resolve index inBatch
                in case run_operator op L r k part w of
                     Returns (Inl err, w1) \<Rightarrow> Returns (SetError (OperatorFailed err) part, w1)
                   | Returns (Inr part', w1) \<Rightarrow> Returns (part', w1)
                   | Panics \<Rightarrow> Panics
                   | Diverges \<Rightarrow> Diverges))
      | None \<Rightarrow>
          (case execRaw L r ctx index inBatch part w of
             Returns (Inl err, w1) \<Rightarrow> Returns (SetError err part, w1)
           | Returns (Inr part', w1) \<Rightarrow> Returns (part', w1)
           | Panics \<Rightarrow> Panics
           | Diverges \<Rightarrow> Diverges))"

fun process_parts ::
  "library \<Rightarrow> 'c redisProc \<Rightarrow> Context \<Rightarrow> MessageBatch \<Rightarrow> nat \<Rightarrow> message list \<Rightarrow>
   'c rworld \<Rightarrow> (message list \<times> 'c rworld) run" where
  "process_parts L r ctx inBatch index [] w = Returns ([], w)"
| "process_parts L r ctx inBatch index (part # rest) w =
     (case process_part L r ctx inBatch index part w of
        Returns (part', w1) \<Rightarrow>
          (case process_parts L r ctx inBatch (Suc index) rest w1 of
             Returns (rest', w2) \<Rightarrow> Returns (part' # rest', w2)
           | Panics \<Rightarrow> Panics
           | Diverges \<Rightarrow> Diverges)
      | Panics \<Rightarrow> Panics
      | Diverges \<Rightarrow> Diverges)"

text \<open>
  The call that \<^verbatim>\<open>ProcessBatch\<close> makes for one index: the operator on the resolved key, or
  \<^verbatim>\<open>execRaw\<close>.
\<close>

definition dispatch ::
  "library \<Rightarrow> 'c redisProc \<Rightarrow> Context \<Rightarrow> MessageBatch \<Rightarrow> nat \<Rightarrow> message \<Rightarrow> 'c rworld \<Rightarrow>
   ((error + message) \<times> 'c rworld) run" where
  "dispatch L r ctx inBatch index part w =
     (case operator r of
        Some op \<Rightarrow>
          (case proc_key r of
             None \<Rightarrow> Panics
           | Some resolve \<Rightarrow> run_operator op L r (resolve index inBatch) part w)
      | None \<Rightarrow> execRaw L r ctx index inBatch part w)"

definition ProcessBatch ::
  "library \<Rightarrow> 'c redisProc \<Rightarrow> Context \<Rightarrow> MessageBatch \<Rightarrow> 'c rworld \<Rightarrow>
   ((MessageBatch list \<times> error option) \<times> 'c rworld) run" where
  "ProcessBatch L r ctx inBatch w =
     (let newMsg = Copy inBatch
      in case process_parts L r ctx inBatch 0 newMsg w of
           Returns (out, w') \<Rightarrow> Returns (([out], None), w')
         | Panics \<Rightarrow> Panics
         | Diverges \<Rightarrow> Diverges)"

text \<open>The trace of a call that returned.\<close>

definition run_trace :: "('a \<times> 'c rworld) run \<Rightarrow> event list option" where
  "run_trace x = (case x of Returns (y, w) \<Rightarrow> Some (trace w) | _ \<Rightarrow> None)"

section \<open>Concrete instances\<close>

text \<open>
  Small concrete collaborators on which the theorems below are run: a duration parser that
  knows two durations, a cache held in memory, a compiler for two metadata interpolations,
  a store client that fails a given number of calls before it answers, and processors
  in both modes: configured, with a mapping that deletes its root, and with the field
  their mode reads left unset.
\<close>

definition example_ParseDuration :: "string \<Rightarrow> error + duration" where
  "example_ParseDuration s =
     (if s = ''60s'' then Inr 60000000000
      else if s = ''5m'' then Inr 300000000000
      else Inl (Opaque ''time: invalid duration''))"

definition memory_cache :: "(string \<rightharpoonup> TTLItem) cacheV1" where
  "memory_cache =
     \<lparr>Set = (\<lambda>k v t s. (None, s(k \<mapsto> \<lparr>Value = v, TTL = t\<rparr>))),
      SetMulti = (\<lambda>items s. (None, s ++ items))\<rparr>"

definition meta_field :: "string \<Rightarrow> expression" where
  "meta_field name i msg =
     (case map_of (part_metadata (batch_Get msg i)) name of None \<Rightarrow> [] | Some v \<Rightarrow> v)"

definition example_NewField :: "string \<Rightarrow> error + expression" where
  "example_NewField t =
     (if t = ''${!meta(id)}'' then Inr (meta_field ''id'')
      else if t = ''${!meta(ttl)}'' then Inr (meta_field ''ttl'')
      else if take 3 t = ''${!'' then Inl (Opaque ''unrecognised interpolation'')
      else Inr (\<lambda>i msg. t))"

definition example_management :: "(string \<rightharpoonup> TTLItem) management" where
  "example_management =
     \<lparr>NewField = example_NewField,
      ProbeCache = (\<lambda>name. name = ''foo''),
      AccessCache = (\<lambda>name. if name = ''foo'' then Inr memory_cache
                             else Inl (Opaque ''cache not found''))\<rparr>"

definition example_conf :: CacheConfig where
  "example_conf =
     \<lparr>Target = ''foo'', Key = ''${!meta(id)}'', TTL_template = ''${!meta(ttl)}'', MaxInFlight = 1\<rparr>"

definition example_writer :: "(string \<rightharpoonup> TTLItem) CacheWriter" where
  "example_writer =
     \<lparr>conf = example_conf, mgr = example_management,
      key = meta_field ''id'', ttl = meta_field ''ttl''\<rparr>"

definition fresh_world :: "(string \<rightharpoonup> TTLItem) world" where
  "fresh_world = \<lparr>store = Map.empty, calls = [], compiled = []\<rparr>"

definition batch_x1 :: batch where
  "batch_x1 = [\<lparr>data = ''payload'', part_metadata = [(''id'', ''x1'')]\<rparr>]"

definition batch_bad_ttl :: batch where
  "batch_bad_ttl = [\<lparr>data = ''payload'', part_metadata = [(''id'', ''x1''), (''ttl'', ''soon'')]\<rparr>]"

definition batch_pair_bad_ttl :: batch where
  "batch_pair_bad_ttl =
     [\<lparr>data = ''first'', part_metadata = [(''id'', ''a'')]\<rparr>,
      \<lparr>data = ''second'', part_metadata = [(''id'', ''b''), (''ttl'', ''soon'')]\<rparr>]"

definition batch_duplicate_key :: batch where
  "batch_duplicate_key =
     [\<lparr>data = ''first'', part_metadata = [(''id'', ''a''), (''ttl'', ''60s'')]\<rparr>,
      \<lparr>data = ''second'', part_metadata = [(''id'', ''b'')]\<rparr>,
      \<lparr>data = ''third'', part_metadata = [(''id'', ''a'')]\<rparr>]"

definition example_library :: library where
  "example_library =
     \<lparr>marshal = (\<lambda>v. Inl (Opaque ''unsupported value'')),
      unmarshal = (\<lambda>b. Inl (Opaque ''invalid character'')),
      ParseFloat = (\<lambda>s. Inl (NumError s))\<rparr>"

definition flaky_client :: "nat redisClient" where
  "flaky_client =
     \<lparr>Keys = (\<lambda>k s. if 0 < s then (Inl (Opaque ''i/o timeout''), s - 1) else (Inr [k], s)),
      SCard = (\<lambda>k s. if 0 < s then (Inl (Opaque ''i/o timeout''), s - 1) else (Inr 0, s)),
      SAdd = (\<lambda>k v s. if 0 < s then (Inl (Opaque ''i/o timeout''), s - 1) else (Inr 1, s)),
      IncrBy = (\<lambda>k v s. if 0 < s then (Inl (Opaque ''i/o timeout''), s - 1) else (Inr v, s)),
      DoContext = (\<lambda>done args s.
        if done then (Inl ContextCanceled, s)
        else if 0 < s then (Inl (Opaque ''i/o timeout''), s - 1)
        else (Inr (VInt 10), s))\<rparr>"

definition plain :: "string \<Rightarrow> message" where
  "plain b = \<lparr>body = Raw b, metadata = [], item_error = None\<rparr>"

definition operator_proc :: "operator_kind \<Rightarrow> int \<Rightarrow> nat redisProc" where
  "operator_proc op n =
     \<lparr>proc_key = Some (\<lambda>i b. ''k''), operator = Some op, command = (\<lambda>i b. []),
      argsMapping = None, client = flaky_client, retries = n, retryPeriod = 500\<rparr>"

definition command_proc :: "int \<Rightarrow> nat redisProc" where
  "command_proc n =
     \<lparr>proc_key = None, operator = None, command = (\<lambda>i b. ''incrby''),
      argsMapping = Some (\<lambda>i b. Inr (Some
        \<lparr>body = Structured (VArray [VString ''ash'', VNumber ''10'']),
         metadata = [], item_error = None\<rparr>)),
      client = flaky_client, retries = n, retryPeriod = 500\<rparr>"

definition deleting_proc :: "nat redisProc" where
  "deleting_proc = (command_proc 3)\<lparr>argsMapping := Some (\<lambda>i b. Inr None)\<rparr>"

definition unset_proc :: "nat redisProc" where
  "unset_proc = (command_proc 3)\<lparr>argsMapping := None\<rparr>"

definition keyless_proc :: "nat redisProc" where
  "keyless_proc = (operator_proc OpKeys 3)\<lparr>proc_key := None\<rparr>"

definition start :: "nat \<Rightarrow> nat rworld" where
  "start s = \<lparr>client_state = s, now = 0, trace = []\<rparr>"

definition flagged :: message where
  "flagged = \<lparr>body = Raw ''5'', metadata = [], item_error = Some (Opaque ''earlier failure'')\<rparr>"

definition three_messages :: MessageBatch where
  "three_messages = [plain ''5'', plain ''x'', plain ''7'']"

definition two_messages :: MessageBatch where
  "two_messages = [plain ''a'', plain ''b'']"

definition incrby_args :: "ivalue list" where
  "incrby_args = [VString ''incrby'', VString ''ash'', VInt 10]"

text \<open>A call that appends exactly one entry to the trace, with the error it returns.\<close>

definition logs_one :: "('c rworld \<Rightarrow> (error + 'a) \<times> 'c rworld) \<Rightarrow> bool" where
  "logs_one call \<longleftrightarrow>
     (\<forall>u. \<exists>req. trace (snd (call u)) = trace u @ [Invoked req (err_of (fst (call u)))])"

lemmas ex_defs = example_ParseDuration_def memory_cache_def meta_field_def example_NewField_def
  example_management_def example_conf_def example_writer_def fresh_world_def batch_x1_def
  batch_bad_ttl_def batch_pair_bad_ttl_def batch_duplicate_key_def batch_Get_def

lemmas rex_defs = example_library_def flaky_client_def plain_def operator_proc_def
  command_proc_def start_def incrby_args_def flagged_def three_messages_def
  deleting_proc_def unset_proc_def keyless_proc_def two_messages_def

lemmas run_defs = execRaw_def with_retries_def call_DoContext_def invoke_def sleep_def
  ctx_done_def err_of_def AsStructured_def AsBytes_def normalise_def ParseInt_def Atoi_def
  digit_value_def SetStructured_def SetBytes_def SetError_def newRedisKeysOperator_def
  newRedisIncrByOperator_def AppendInt_def digit_char_def Let_def ProcessBatch_def Copy_def
  process_part_def dispatch_def run_trace_def next_counter_def

section \<open>The cache output: proofs\<close>

subsection \<open>The two store calls and the item loop\<close>

lemma do_Set_calls: "calls (snd (do_Set ac k v t w)) = calls w @ [SetCall k v t]"
  by (simp add: do_Set_def split: prod.splits)

lemma do_Set_compiled: "compiled (snd (do_Set ac k v t w)) = compiled w"
  by (simp add: do_Set_def split: prod.splits)

lemma do_Set_fst: "fst (do_Set ac k v t w) = fst (Set ac k v t (store w))"
  by (simp add: do_Set_def split: prod.splits)

lemma do_Set_store: "store (snd (do_Set ac k v t w)) = snd (Set ac k v t (store w))"
  by (simp add: do_Set_def split: prod.splits)

lemma do_SetMulti_calls: "calls (snd (do_SetMulti ac items w)) = calls w @ [SetMultiCall items]"
  by (simp add: do_SetMulti_def split: prod.splits)

lemma do_SetMulti_compiled: "compiled (snd (do_SetMulti ac items w)) = compiled w"
  by (simp add: do_SetMulti_def split: prod.splits)

lemma do_SetMulti_fst: "fst (do_SetMulti ac items w) = fst (SetMulti ac items (store w))"
  by (simp add: do_SetMulti_def split: prod.splits)

lemma do_SetMulti_store: "store (snd (do_SetMulti ac items w)) = snd (SetMulti ac items (store w))"
  by (simp add: do_SetMulti_def split: prod.splits)

lemma batch_Get_in: "i < length msg \<Longrightarrow> batch_Get msg i = msg ! i"
  by (simp add: batch_Get_def)

lemma resolve_ttl_bad:
  "t i msg \<noteq> [] \<Longrightarrow> isl (pd (t i msg)) \<Longrightarrow> isl (resolve_ttl pd t i msg)"
  by (auto simp: resolve_ttl_def Let_def split: sum.splits)

lemma resolve_ttl_good:
  "t i msg = [] \<or> \<not> isl (pd (t i msg)) \<Longrightarrow>
   resolve_ttl pd t i msg = Inr (if t i msg = [] then None else Some (projr (pd (t i msg))))"
  by (auto simp: resolve_ttl_def Let_def split: sum.splits)

lemma iter_items_fails:
  "j < length ps \<Longrightarrow> isl (resolve_ttl pd (ttl c) (i + j) msg) \<Longrightarrow>
   isl (iter_items pd c msg i ps items)"
proof (induction ps arbitrary: i j items)
  case Nil
  then show ?case by simp
next
  case (Cons p ps)
  show ?case
  proof (cases "resolve_ttl pd (ttl c) i msg")
    case (Inl e)
    then show ?thesis by simp
  next
    case (Inr t)
    with Cons.prems have "j \<noteq> 0" by (cases j) auto
    then obtain j' where j': "j = Suc j'" by (cases j) auto
    with Cons.prems have "j' < length ps" "isl (resolve_ttl pd (ttl c) (Suc i + j') msg)"
      by auto
    from Cons.IH [OF this] show ?thesis using Inr by simp
  qed
qed

lemma iter_items_succeeds:
  "\<forall>j<length ps. \<not> isl (resolve_ttl pd (ttl c) (i + j) msg) \<Longrightarrow>
   \<exists>items'. iter_items pd c msg i ps items = Inr items'"
proof (induction ps arbitrary: i items)
  case Nil
  then show ?case by simp
next
  case (Cons p ps)
  from Cons.prems have "\<not> isl (resolve_ttl pd (ttl c) (i + 0) msg)" by blast
  then obtain t where t: "resolve_ttl pd (ttl c) i msg = Inr t"
    by (cases "resolve_ttl pd (ttl c) i msg") auto
  from Cons.prems have "\<forall>j<length ps. \<not> isl (resolve_ttl pd (ttl c) (Suc i + j) msg)"
    by fastforce
  from Cons.IH [OF this] show ?case using t by simp
qed

lemma iter_items_dom:
  "iter_items pd c msg i ps items = Inr items' \<Longrightarrow>
   dom items' = dom items \<union> (\<lambda>j. key c (i + j) msg) ` {..<length ps}"
proof (induction ps arbitrary: i items)
  case Nil
  then show ?case by simp
next
  case (Cons p ps)
  from Cons.prems obtain t where t: "resolve_ttl pd (ttl c) i msg = Inr t"
    by (cases "resolve_ttl pd (ttl c) i msg") auto
  with Cons.prems have
    "iter_items pd c msg (Suc i) ps (items(key c i msg \<mapsto> \<lparr>Value = data p, TTL = t\<rparr>)) = Inr items'"
    by simp
  then have "dom items' = dom (items(key c i msg \<mapsto> \<lparr>Value = data p, TTL = t\<rparr>)) \<union>
      (\<lambda>j. key c (Suc i + j) msg) ` {..<length ps}"
    by (rule Cons.IH)
  also have "\<dots> = insert (key c i msg) (dom items \<union> (\<lambda>j. key c (Suc i + j) msg) ` {..<length ps})"
    by (simp only: dom_fun_upd option.distinct if_False Un_insert_left)
  also have "\<dots> = dom items \<union> (\<lambda>j. key c (i + j) msg) ` {..<length (p # ps)}"
    by (simp add: lessThan_Suc_eq_insert_0 image_image)
  finally show ?case .
qed

lemma iter_items_other:
  "iter_items pd c msg i ps items = Inr items' \<Longrightarrow>
   \<forall>j<length ps. key c (i + j) msg \<noteq> k \<Longrightarrow> items' k = items k"
proof (induction ps arbitrary: i items)
  case Nil
  then show ?case by simp
next
  case (Cons p ps)
  from Cons.prems(1) obtain t where t: "resolve_ttl pd (ttl c) i msg = Inr t"
    by (cases "resolve_ttl pd (ttl c) i msg") auto
  with Cons.prems have step:
    "iter_items pd c msg (Suc i) ps (items(key c i msg \<mapsto> \<lparr>Value = data p, TTL = t\<rparr>)) = Inr items'"
    by simp
  from Cons.prems(2) have "key c (i + 0) msg \<noteq> k" by blast
  then have k0: "key c i msg \<noteq> k" by simp
  from Cons.prems(2) have "\<forall>j<length ps. key c (Suc i + j) msg \<noteq> k" by fastforce
  from Cons.IH [OF step this] show ?case using k0 by simp
qed

lemma iter_items_last:
  "iter_items pd c msg i ps items = Inr items' \<Longrightarrow> j < length ps \<Longrightarrow>
   \<forall>l. j < l \<and> l < length ps \<longrightarrow> key c (i + l) msg \<noteq> key c (i + j) msg \<Longrightarrow>
   \<exists>t. resolve_ttl pd (ttl c) (i + j) msg = Inr t \<and>
     items' (key c (i + j) msg) = Some \<lparr>Value = data (ps ! j), TTL = t\<rparr>"
proof (induction ps arbitrary: i j items)
  case Nil
  then show ?case by simp
next
  case (Cons p ps)
  from Cons.prems(1) obtain t where t: "resolve_ttl pd (ttl c) i msg = Inr t"
    by (cases "resolve_ttl pd (ttl c) i msg") auto
  with Cons.prems have step:
    "iter_items pd c msg (Suc i) ps (items(key c i msg \<mapsto> \<lparr>Value = data p, TTL = t\<rparr>)) = Inr items'"
    by simp
  show ?case
  proof (cases j)
    case 0
    have "\<forall>l<length ps. key c (Suc i + l) msg \<noteq> key c i msg"
    proof (intro allI impI)
      fix l assume "l < length ps"
      then have "0 < Suc l \<and> Suc l < length (p # ps)" by simp
      with Cons.prems(3) 0 have "key c (i + Suc l) msg \<noteq> key c (i + 0) msg" by blast
      then show "key c (Suc i + l) msg \<noteq> key c i msg" by simp
    qed
    from iter_items_other [OF step this] show ?thesis using 0 t by simp
  next
    case (Suc j')
    with Cons.prems have j': "j' < length ps" by simp
    have "\<forall>l. j' < l \<and> l < length ps \<longrightarrow> key c (Suc i + l) msg \<noteq> key c (Suc i + j') msg"
    proof (intro allI impI)
      fix l assume "j' < l \<and> l < length ps"
      then have "j < Suc l \<and> Suc l < length (p # ps)" using Suc by simp
      with Cons.prems(3) have "key c (i + Suc l) msg \<noteq> key c (i + j) msg" by blast
      then show "key c (Suc i + l) msg \<noteq> key c (Suc i + j') msg" using Suc by simp
    qed
    from Cons.IH [OF step j' this] show ?thesis using Suc by simp
  qed
qed

lemma writeMulti_ok:
  assumes acc: "AccessCache (mgr c) (Target (conf c)) = Inr ac"
    and ok: "\<forall>i<length msg. ttl c i msg = [] \<or> \<not> isl (pd (ttl c i msg))"
  obtains items where "iter_items pd c msg 0 msg Map.empty = Inr items"
    and "writeMulti pd c msg w = do_SetMulti ac items w"
proof -
  have "\<forall>j<length msg. \<not> isl (resolve_ttl pd (ttl c) (0 + j) msg)"
    using ok by (simp add: resolve_ttl_good)
  then obtain items where it: "iter_items pd c msg 0 msg Map.empty = Inr items"
    using iter_items_succeeds by blast
  with acc have "writeMulti pd c msg w = do_SetMulti ac items w"
    by (simp add: writeMulti_def)
  with it that show thesis by blast
qed

lemma last_index_with_key:
  fixes f :: "nat \<Rightarrow> 'k"
  assumes "j < n"
  obtains l where "j \<le> l" and "l < n" and "f l = f j"
    and "\<forall>l'. l < l' \<and> l' < n \<longrightarrow> f l' \<noteq> f j"
proof -
  let ?S = "{l. l < n \<and> f l = f j}"
  have fin: "finite ?S" by simp
  have jS: "j \<in> ?S" using assms by simp
  then have ne: "?S \<noteq> {}" by blast
  have mS: "Max ?S \<in> ?S" using fin ne by (rule Max_in)
  have "j \<le> Max ?S" using fin jS by (rule Max_ge)
  moreover have "Max ?S < n" "f (Max ?S) = f j" using mS by simp_all
  moreover have "\<forall>l'. Max ?S < l' \<and> l' < n \<longrightarrow> f l' \<noteq> f j"
  proof (intro allI impI notI)
    fix l' assume a: "Max ?S < l' \<and> l' < n" and "f l' = f j"
    then have "l' \<in> ?S" by simp
    with fin have "l' \<le> Max ?S" by (rule Max_ge)
    with a show False by simp
  qed
  ultimately show thesis using that by blast
qed

lemma WriteWithContext_compiled: "compiled (snd (WriteWithContext pd c msg u)) = compiled u"
  by (simp add: WriteWithContext_def writeMulti_def do_Set_compiled do_SetMulti_compiled
      split: sum.splits)

subsection \<open>Dispatch shape\<close>

text \<open>
  C5. The shape of a dispatch is decided by the size of the batch. When the target cache
  is reached and every resolved TTL is empty or parses, a batch of size 1 makes exactly
  one \<^verbatim>\<open>Set\<close> call, with the key and the TTL resolved at index 0 and the payload of that
  part, and the result of the write is the result of that call; a batch of size greater
  than 1 makes exactly one \<^verbatim>\<open>SetMulti\<close> call, whose map has the keys resolved at all
  indices as its domain and under every key the payload and the optional TTL of an index
  that resolves to that key.
\<close>

theorem dispatch_shape:
  assumes acc: "AccessCache (mgr c) (Target (conf c)) = Inr ac"
    and ok: "\<forall>i<length msg. ttl c i msg = [] \<or> \<not> isl (pd (ttl c i msg))"
  shows "(length msg = 1 \<longrightarrow>
      (let t = (if ttl c 0 msg = [] then None else Some (projr (pd (ttl c 0 msg))));
           r = WriteWithContext pd c msg w
       in calls (snd r) = calls w @ [SetCall (key c 0 msg) (data (msg ! 0)) t] \<and>
          fst r = fst (Set ac (key c 0 msg) (data (msg ! 0)) t (store w)))) \<and>
    (length msg > 1 \<longrightarrow>
      (\<exists>items.
          let r = WriteWithContext pd c msg w
          in calls (snd r) = calls w @ [SetMultiCall items] \<and>
             fst r = fst (SetMulti ac items (store w)) \<and>
             dom items = (\<lambda>i. key c i msg) ` {..<length msg} \<and>
             (\<forall>k\<in>dom items. \<exists>i<length msg. key c i msg = k \<and>
                items k = Some \<lparr>Value = data (msg ! i),
                  TTL = (if ttl c i msg = [] then None
                         else Some (projr (pd (ttl c i msg))))\<rparr>)))"
proof (intro conjI impI)
  assume one: "length msg = 1"
  with ok have "ttl c 0 msg = [] \<or> \<not> isl (pd (ttl c 0 msg))" by simp
  then have "resolve_ttl pd (ttl c) 0 msg =
      Inr (if ttl c 0 msg = [] then None else Some (projr (pd (ttl c 0 msg))))"
    by (rule resolve_ttl_good)
  with one acc have "WriteWithContext pd c msg w =
      do_Set ac (key c 0 msg) (data (msg ! 0))
        (if ttl c 0 msg = [] then None else Some (projr (pd (ttl c 0 msg)))) w"
    by (simp add: WriteWithContext_def batch_Get_in)
  then show "let t = (if ttl c 0 msg = [] then None else Some (projr (pd (ttl c 0 msg))));
           r = WriteWithContext pd c msg w
       in calls (snd r) = calls w @ [SetCall (key c 0 msg) (data (msg ! 0)) t] \<and>
          fst r = fst (Set ac (key c 0 msg) (data (msg ! 0)) t (store w))"
    by (simp add: Let_def do_Set_calls do_Set_fst)
next
  assume many: "length msg > 1"
  from acc ok obtain items where it: "iter_items pd c msg 0 msg Map.empty = Inr items"
    and wm: "writeMulti pd c msg w = do_SetMulti ac items w"
    by (rule writeMulti_ok)
  from many wm have r: "WriteWithContext pd c msg w = do_SetMulti ac items w"
    by (simp add: WriteWithContext_def)
  have d: "dom items = (\<lambda>i. key c i msg) ` {..<length msg}"
    using iter_items_dom [OF it] by simp
  have e: "\<forall>k\<in>dom items. \<exists>i<length msg. key c i msg = k \<and>
      items k = Some \<lparr>Value = data (msg ! i),
        TTL = (if ttl c i msg = [] then None else Some (projr (pd (ttl c i msg))))\<rparr>"
  proof
    fix k assume "k \<in> dom items"
    with d obtain j where j: "j < length msg" "k = key c j msg" by auto
    from j(1) obtain l where l: "l < length msg" "key c l msg = key c j msg"
      "\<forall>l'. l < l' \<and> l' < length msg \<longrightarrow> key c l' msg \<noteq> key c j msg"
      by (rule last_index_with_key [where f = "\<lambda>i. key c i msg"])
    from l(2,3) have "\<forall>l'. l < l' \<and> l' < length msg \<longrightarrow> key c (0 + l') msg \<noteq> key c (0 + l) msg"
      by simp
    from iter_items_last [OF it l(1) this] obtain t where
      t: "resolve_ttl pd (ttl c) l msg = Inr t"
      "items (key c l msg) = Some \<lparr>Value = data (msg ! l), TTL = t\<rparr>"
      by auto
    from ok l(1) have "ttl c l msg = [] \<or> \<not> isl (pd (ttl c l msg))" by simp
    then have "resolve_ttl pd (ttl c) l msg =
        Inr (if ttl c l msg = [] then None else Some (projr (pd (ttl c l msg))))"
      by (rule resolve_ttl_good)
    with t(1) have "t = (if ttl c l msg = [] then None else Some (projr (pd (ttl c l msg))))" by simp
    with t(2) l j show "\<exists>i<length msg. key c i msg = k \<and>
      items k = Some \<lparr>Value = data (msg ! i),
        TTL = (if ttl c i msg = [] then None else Some (projr (pd (ttl c i msg))))\<rparr>"
      by auto
  qed
  show "\<exists>items.
          let r = WriteWithContext pd c msg w
          in calls (snd r) = calls w @ [SetMultiCall items] \<and>
             fst r = fst (SetMulti ac items (store w)) \<and>
             dom items = (\<lambda>i. key c i msg) ` {..<length msg} \<and>
             (\<forall>k\<in>dom items. \<exists>i<length msg. key c i msg = k \<and>
                items k = Some \<lparr>Value = data (msg ! i),
                  TTL = (if ttl c i msg = [] then None
                         else Some (projr (pd (ttl c i msg))))\<rparr>)"
    unfolding Let_def r do_SetMulti_calls do_SetMulti_fst
    using d e by blast
qed

theorem dispatch_shape_witness:
  "calls (snd (WriteWithContext example_ParseDuration example_writer batch_x1 fresh_world)) =
     [SetCall ''x1'' ''payload'' None] \<and>
   (\<exists>items. calls (snd (WriteWithContext example_ParseDuration example_writer
        batch_duplicate_key fresh_world)) = [SetMultiCall items] \<and> dom items = {''a'', ''b''})"
proof -
  have acc: "AccessCache (mgr example_writer) (Target (conf example_writer)) = Inr memory_cache"
    by (simp add: ex_defs)
  have ok1: "\<forall>i<length batch_x1. ttl example_writer i batch_x1 = [] \<or>
      \<not> isl (example_ParseDuration (ttl example_writer i batch_x1))"
    by (simp add: ex_defs)
  have ok3: "\<forall>i<length batch_duplicate_key. ttl example_writer i batch_duplicate_key = [] \<or>
      \<not> isl (example_ParseDuration (ttl example_writer i batch_duplicate_key))"
    by (simp add: ex_defs less_Suc_eq)
  have l1: "length batch_x1 = 1" by (simp add: batch_x1_def)
  have l3: "length batch_duplicate_key > 1" by (simp add: batch_duplicate_key_def)
  have t: "ttl example_writer 0 batch_x1 = []" by (simp add: ex_defs)
  have k: "key example_writer 0 batch_x1 = ''x1''" by (simp add: ex_defs)
  have d: "data (batch_x1 ! 0) = ''payload''" by (simp add: batch_x1_def)
  have c: "calls fresh_world = []" by (simp add: fresh_world_def)
  have ks: "(\<lambda>i. key example_writer i batch_duplicate_key) ` {..<length batch_duplicate_key} =
      {''a'', ''b''}"
    by (auto simp: ex_defs lessThan_Suc less_Suc_eq)
  from dispatch_shape [OF acc ok1, of fresh_world] l1
  have one: "calls (snd (WriteWithContext example_ParseDuration example_writer batch_x1 fresh_world)) =
     [SetCall ''x1'' ''payload'' None]"
    unfolding Let_def t k d c by simp
  from dispatch_shape [OF acc ok3, of fresh_world] l3
  have "\<exists>items. calls (snd (WriteWithContext example_ParseDuration example_writer
        batch_duplicate_key fresh_world)) = [SetMultiCall items] \<and> dom items = {''a'', ''b''}"
    unfolding Let_def ks c by auto
  with one show ?thesis by simp
qed

text \<open>
  C6. For a batch of one message whose TTL resolves to the empty string, and a target
  cache that is reached, \<^verbatim>\<open>Set\<close> is called exactly once with no TTL, with the resolved key
  and the payload as they are; the duration parser plays no part (the write is the same
  for every parser).
\<close>

theorem empty_ttl_single:
  assumes "length msg = 1" and "ttl c 0 msg = []"
    and "AccessCache (mgr c) (Target (conf c)) = Inr ac"
  shows "calls (snd (WriteWithContext pd c msg w)) =
           calls w @ [SetCall (key c 0 msg) (data (msg ! 0)) None] \<and>
         fst (WriteWithContext pd c msg w) =
           fst (Set ac (key c 0 msg) (data (msg ! 0)) None (store w)) \<and>
         (\<forall>pd'. WriteWithContext pd' c msg w = WriteWithContext pd c msg w)"
proof -
  have "\<And>q. WriteWithContext q c msg w = do_Set ac (key c 0 msg) (data (msg ! 0)) None w"
    using assms by (simp add: WriteWithContext_def resolve_ttl_def batch_Get_in)
  then show ?thesis by (simp add: do_Set_calls do_Set_fst)
qed

theorem empty_ttl_single_witness:
  "length batch_x1 = 1 \<and> ttl example_writer 0 batch_x1 = [] \<and>
   calls (snd (WriteWithContext example_ParseDuration example_writer batch_x1 fresh_world)) =
     [SetCall ''x1'' ''payload'' None] \<and>
   fst (WriteWithContext example_ParseDuration example_writer batch_x1 fresh_world) = None"
proof -
  have 1: "length batch_x1 = 1" by (simp add: batch_x1_def)
  have 2: "ttl example_writer 0 batch_x1 = []" by (simp add: ex_defs)
  have 3: "AccessCache (mgr example_writer) (Target (conf example_writer)) = Inr memory_cache"
    by (simp add: ex_defs)
  have k: "key example_writer 0 batch_x1 = ''x1''" by (simp add: ex_defs)
  have d: "data (batch_x1 ! 0) = ''payload''" by (simp add: batch_x1_def)
  have c: "calls fresh_world = []" by (simp add: fresh_world_def)
  have s: "fst (Set memory_cache ''x1'' ''payload'' None (store fresh_world)) = None"
    by (simp add: memory_cache_def)
  from empty_ttl_single [OF 1 2 3, of example_ParseDuration fresh_world] 1 2
  show ?thesis unfolding k d c s by simp
qed

subsection \<open>TTL parse failures\<close>

text \<open>
  C7. For a batch of size 1 whose resolved TTL is not empty and does not parse, the write
  returns one error and the world is left as it was: no \<^verbatim>\<open>Set\<close> call is made. The error
  is the wrapped parse error when the cache is reached, and the manager's own error
  otherwise.
\<close>

theorem ttl_parse_failure_single:
  assumes "length msg = 1" and "ttl c 0 msg \<noteq> []" and "pd (ttl c 0 msg) = Inl terr"
  shows "WriteWithContext pd c msg w =
    (Some (case AccessCache (mgr c) (Target (conf c)) of
             Inl cerr \<Rightarrow> cerr | Inr ac \<Rightarrow> TTLFieldError terr), w)"
proof -
  from assms(2,3) have "resolve_ttl pd (ttl c) 0 msg = Inl (TTLFieldError terr)"
    by (simp add: resolve_ttl_def)
  with assms(1) show ?thesis
    by (simp add: WriteWithContext_def split: sum.splits)
qed

theorem ttl_parse_failure_single_witness:
  "length batch_bad_ttl = 1 \<and> ttl example_writer 0 batch_bad_ttl = ''soon'' \<and>
   WriteWithContext example_ParseDuration example_writer batch_bad_ttl fresh_world =
     (Some (TTLFieldError (Opaque ''time: invalid duration'')), fresh_world)"
proof -
  have 1: "length batch_bad_ttl = 1" by (simp add: batch_bad_ttl_def)
  have 2: "ttl example_writer 0 batch_bad_ttl = ''soon''" by (simp add: ex_defs)
  then have 3: "ttl example_writer 0 batch_bad_ttl \<noteq> []" by simp
  have 4: "example_ParseDuration (ttl example_writer 0 batch_bad_ttl) =
      Inl (Opaque ''time: invalid duration'')"
    unfolding 2 by (simp add: example_ParseDuration_def)
  have 5: "AccessCache (mgr example_writer) (Target (conf example_writer)) = Inr memory_cache"
    by (simp add: ex_defs)
  from ttl_parse_failure_single
    [where msg = batch_bad_ttl and c = example_writer and pd = example_ParseDuration
       and w = fresh_world, OF 1 3 4]
    1 2 5 show ?thesis by simp
qed

text \<open>
  C2. For a batch of size greater than 1 in which the resolved TTL of some message is not
  empty and does not parse, the write returns an error and the world is left as it was:
  \<^verbatim>\<open>SetMulti\<close> is never called and nothing is written. The writer only reads the batch
  and answers with one error for all of it, so no part has an error attached.
\<close>

theorem ttl_parse_failure_multi:
  assumes "length msg > 1" and "i < length msg"
    and "ttl c i msg \<noteq> []" and "isl (pd (ttl c i msg))"
  shows "\<exists>e. WriteWithContext pd c msg w = (Some e, w)"
proof -
  from assms(3,4) have "isl (resolve_ttl pd (ttl c) (0 + i) msg)"
    by (simp add: resolve_ttl_bad)
  with assms(2) have "isl (iter_items pd c msg 0 msg Map.empty)"
    by (rule iter_items_fails)
  then obtain e where "iter_items pd c msg 0 msg Map.empty = Inl e"
    by (cases "iter_items pd c msg 0 msg Map.empty") auto
  with assms(1) show ?thesis
    by (simp add: WriteWithContext_def writeMulti_def split: sum.splits)
qed

theorem ttl_parse_failure_multi_witness:
  "length batch_pair_bad_ttl > 1 \<and>
   (\<exists>e. WriteWithContext example_ParseDuration example_writer batch_pair_bad_ttl fresh_world =
      (Some e, fresh_world))"
proof -
  have 1: "length batch_pair_bad_ttl > 1" by (simp add: batch_pair_bad_ttl_def)
  have 2: "1 < length batch_pair_bad_ttl" by (simp add: batch_pair_bad_ttl_def)
  have t: "ttl example_writer 1 batch_pair_bad_ttl = ''soon''" by (simp add: ex_defs)
  then have 3: "ttl example_writer 1 batch_pair_bad_ttl \<noteq> []" by simp
  have 4: "isl (example_ParseDuration (ttl example_writer 1 batch_pair_bad_ttl))"
    unfolding t by (simp add: example_ParseDuration_def)
  from ttl_parse_failure_multi
    [where msg = batch_pair_bad_ttl and c = example_writer and pd = example_ParseDuration
       and i = 1 and w = fresh_world, OF 1 2 3 4]
    1 show ?thesis by simp
qed

subsection \<open>Keys that collide\<close>

text \<open>
  C10. In the multi-item path the items are gathered in a map under their resolved keys
  before \<^verbatim>\<open>SetMulti\<close> is called. When two indices \<open>i < j\<close> resolve to the same key (and the
  call is reached: the cache is found and every TTL is empty or parses), the one call
  receives a map with strictly fewer entries than the batch has messages, and the entry
  under that key is the item of an index not before \<open>j\<close>, not the item of \<open>i\<close>; the result
  of the write is the result of the call, so nothing reports the dropped item.
\<close>

theorem duplicate_keys_overwrite:
  assumes acc: "AccessCache (mgr c) (Target (conf c)) = Inr ac"
    and ok: "\<forall>i<length msg. ttl c i msg = [] \<or> \<not> isl (pd (ttl c i msg))"
    and ij: "i < j" "j < length msg" and same: "key c i msg = key c j msg"
  shows "\<exists>items l.
      calls (snd (writeMulti pd c msg w)) = calls w @ [SetMultiCall items] \<and>
      fst (writeMulti pd c msg w) = fst (SetMulti ac items (store w)) \<and>
      card (dom items) < length msg \<and>
      j \<le> l \<and> l < length msg \<and> key c l msg = key c i msg \<and>
      items (key c i msg) = Some \<lparr>Value = data (msg ! l),
        TTL = (if ttl c l msg = [] then None else Some (projr (pd (ttl c l msg))))\<rparr>"
proof -
  from acc ok obtain items where it: "iter_items pd c msg 0 msg Map.empty = Inr items"
    and wm: "writeMulti pd c msg w = do_SetMulti ac items w"
    by (rule writeMulti_ok)
  have d: "dom items = (\<lambda>i. key c i msg) ` {..<length msg}"
    using iter_items_dom [OF it] by simp
  have "\<not> inj_on (\<lambda>i. key c i msg) {..<length msg}"
  proof
    assume "inj_on (\<lambda>i. key c i msg) {..<length msg}"
    moreover from ij have "i \<in> {..<length msg}" "j \<in> {..<length msg}" by simp_all
    ultimately have "i = j" using same by (auto dest: inj_onD)
    with ij show False by simp
  qed
  then have "card ((\<lambda>i. key c i msg) ` {..<length msg}) \<noteq> card {..<length msg}"
    using eq_card_imp_inj_on [of "{..<length msg}" "\<lambda>i. key c i msg"] by auto
  moreover have "card ((\<lambda>i. key c i msg) ` {..<length msg}) \<le> card {..<length msg}"
    by (rule card_image_le) simp
  ultimately have cd: "card (dom items) < length msg" using d by simp
  from ij(2) obtain l where l: "j \<le> l" "l < length msg" "key c l msg = key c j msg"
      "\<forall>l'. l < l' \<and> l' < length msg \<longrightarrow> key c l' msg \<noteq> key c j msg"
    by (rule last_index_with_key [where f = "\<lambda>i. key c i msg"])
  from l(3,4) have "\<forall>l'. l < l' \<and> l' < length msg \<longrightarrow> key c (0 + l') msg \<noteq> key c (0 + l) msg"
    by simp
  from iter_items_last [OF it l(2) this] obtain t where
    t: "resolve_ttl pd (ttl c) l msg = Inr t"
    "items (key c l msg) = Some \<lparr>Value = data (msg ! l), TTL = t\<rparr>"
    by auto
  from ok l(2) have "ttl c l msg = [] \<or> \<not> isl (pd (ttl c l msg))" by simp
  then have "resolve_ttl pd (ttl c) l msg =
      Inr (if ttl c l msg = [] then None else Some (projr (pd (ttl c l msg))))"
    by (rule resolve_ttl_good)
  with t(1) have "t = (if ttl c l msg = [] then None else Some (projr (pd (ttl c l msg))))" by simp
  with t(2) l same have "items (key c i msg) = Some \<lparr>Value = data (msg ! l),
        TTL = (if ttl c l msg = [] then None else Some (projr (pd (ttl c l msg))))\<rparr>"
    by simp
  with cd l same show ?thesis
    unfolding wm do_SetMulti_calls do_SetMulti_fst by auto
qed

theorem duplicate_keys_overwrite_witness:
  "(0::nat) < 2 \<and> 2 < length batch_duplicate_key \<and>
   key example_writer 0 batch_duplicate_key = key example_writer 2 batch_duplicate_key \<and>
   (\<exists>items. calls (snd (writeMulti example_ParseDuration example_writer batch_duplicate_key
        fresh_world)) = [SetMultiCall items] \<and> card (dom items) < 3 \<and>
      items ''a'' = Some \<lparr>Value = ''third'', TTL = None\<rparr>)"
proof -
  have acc: "AccessCache (mgr example_writer) (Target (conf example_writer)) = Inr memory_cache"
    by (simp add: ex_defs)
  have ok3: "\<forall>i<length batch_duplicate_key. ttl example_writer i batch_duplicate_key = [] \<or>
      \<not> isl (example_ParseDuration (ttl example_writer i batch_duplicate_key))"
    by (simp add: ex_defs less_Suc_eq)
  have ij: "(0::nat) < 2" "2 < length batch_duplicate_key" by (simp_all add: batch_duplicate_key_def)
  have same: "key example_writer 0 batch_duplicate_key = key example_writer 2 batch_duplicate_key"
    by (simp add: ex_defs)
  have l: "length batch_duplicate_key = 3" by (simp add: batch_duplicate_key_def)
  have k0: "key example_writer 0 batch_duplicate_key = ''a''" by (simp add: ex_defs)
  have c: "calls fresh_world = []" by (simp add: fresh_world_def)
  have last: "data (batch_duplicate_key ! 2) = ''third''" "ttl example_writer 2 batch_duplicate_key = []"
    by (simp_all add: ex_defs)
  from duplicate_keys_overwrite [OF acc ok3 ij same, of fresh_world]
  obtain items l' where it:
    "calls (snd (writeMulti example_ParseDuration example_writer batch_duplicate_key fresh_world)) =
       [SetMultiCall items]"
    "card (dom items) < 3" "2 \<le> l'" "l' < 3"
    "items ''a'' = Some \<lparr>Value = data (batch_duplicate_key ! l'),
        TTL = (if ttl example_writer l' batch_duplicate_key = [] then None
               else Some (projr (example_ParseDuration (ttl example_writer l' batch_duplicate_key))))\<rparr>"
    unfolding l k0 c by auto
  from it(3,4) have "l' = 2" by simp
  with it(5) last have "items ''a'' = Some \<lparr>Value = ''third'', TTL = None\<rparr>" by simp
  with it(1,2) ij same show ?thesis by blast
qed

subsection \<open>Construction\<close>

text \<open>
  C8. Constructing the writer fails if and only if the key template does not compile, the
  TTL template does not compile, or the target cache is not in the registry. When it
  succeeds, exactly the two templates have been handed to the compiler, once each and in
  this order, the writer holds their compiled forms, nothing has been written to the store,
  and no write through the writer compiles anything. When it fails, the registered
  constructor returns that error and no output is made, so no batch is dispatched.
\<close>

theorem construction_fails_iff:
  "(isl (fst (NewCacheWriter cnf m w)) \<longleftrightarrow>
      isl (NewField m (Key cnf)) \<or> isl (NewField m (TTL_template cnf)) \<or>
      \<not> ProbeCache m (Target cnf)) \<and>
   (\<forall>c w'. NewCacheWriter cnf m w = (Inr c, w') \<longrightarrow>
      compiled w' = compiled w @ [Key cnf, TTL_template cnf] \<and>
      NewField m (Key cnf) = Inr (key c) \<and> NewField m (TTL_template cnf) = Inr (ttl c) \<and>
      calls w' = calls w \<and> store w' = store w \<and>
      (\<forall>pd msg u. compiled (snd (WriteWithContext pd c msg u)) = compiled u)) \<and>
   (\<forall>e. fst (NewCacheWriter cnf m w) = Inl e \<longrightarrow>
      fst (cache_output_constructor naw cnf m w) = Inl e)"
  by (auto simp: NewCacheWriter_def compile_def WriteWithContext_compiled
      cache_output_constructor_def split: sum.splits if_splits)

theorem construction_fails_iff_witness:
  "\<not> isl (fst (NewCacheWriter example_conf example_management fresh_world)) \<and>
   compiled (snd (NewCacheWriter example_conf example_management fresh_world)) =
     [''${!meta(id)}'', ''${!meta(ttl)}''] \<and>
   isl (fst (NewCacheWriter (example_conf\<lparr>Target := ''bar''\<rparr>) example_management fresh_world)) \<and>
   isl (fst (cache_output_constructor (\<lambda>name n ca. Inr ca) (example_conf\<lparr>Target := ''bar''\<rparr>)
     example_management fresh_world)) \<and>
   isl (fst (NewCacheWriter (example_conf\<lparr>Key := ''${!nope''\<rparr>) example_management fresh_world))"
proof -
  let ?naw = "\<lambda>(name :: string) (n :: int) (ca :: (string \<rightharpoonup> TTLItem) CacheWriter).
    (Inr ca :: error + (string \<rightharpoonup> TTLItem) CacheWriter)"
  have a: "\<not> isl (NewField example_management (Key example_conf))"
    "\<not> isl (NewField example_management (TTL_template example_conf))"
    "ProbeCache example_management (Target example_conf)"
    by (simp_all add: ex_defs)
  have b: "\<not> ProbeCache example_management (Target (example_conf\<lparr>Target := ''bar''\<rparr>))"
    by (simp add: ex_defs)
  have c: "isl (NewField example_management (Key (example_conf\<lparr>Key := ''${!nope''\<rparr>)))"
    by (simp add: ex_defs)
  note good = construction_fails_iff
    [where cnf = example_conf and m = example_management and w = fresh_world and naw = ?naw]
  note bad_target = construction_fails_iff
    [where cnf = "example_conf\<lparr>Target := ''bar''\<rparr>" and m = example_management
       and w = fresh_world and naw = ?naw]
  note bad_key = construction_fails_iff
    [where cnf = "example_conf\<lparr>Key := ''${!nope''\<rparr>" and m = example_management
       and w = fresh_world and naw = ?naw]
  have ok: "\<not> isl (fst (NewCacheWriter example_conf example_management fresh_world))"
    using good a by simp
  obtain res w' where rw: "NewCacheWriter example_conf example_management fresh_world = (res, w')"
    by (cases "NewCacheWriter example_conf example_management fresh_world")
  with ok obtain cw where "res = Inr cw" by (cases res) auto
  with rw have cw: "NewCacheWriter example_conf example_management fresh_world = (Inr cw, w')"
    by simp
  with good
  have "compiled w' = compiled fresh_world @ [Key example_conf, TTL_template example_conf]"
    by simp
  then have comp: "compiled (snd (NewCacheWriter example_conf example_management fresh_world)) =
     [''${!meta(id)}'', ''${!meta(ttl)}'']"
    using cw by (simp add: example_conf_def fresh_world_def)
  have bad1: "isl (fst (NewCacheWriter (example_conf\<lparr>Target := ''bar''\<rparr>) example_management fresh_world))"
    using bad_target b by simp
  then obtain e where "fst (NewCacheWriter (example_conf\<lparr>Target := ''bar''\<rparr>) example_management
      fresh_world) = Inl e"
    by (auto simp: isl_def)
  with bad_target have bad1': "isl (fst (cache_output_constructor ?naw
      (example_conf\<lparr>Target := ''bar''\<rparr>) example_management fresh_world))"
    by simp
  have bad2: "isl (fst (NewCacheWriter (example_conf\<lparr>Key := ''${!nope''\<rparr>) example_management fresh_world))"
    using bad_key c by simp
  from ok comp bad1 bad1' bad2 show ?thesis by simp
qed

section \<open>The redis processor: proofs\<close>

subsection \<open>The retry loop\<close>

lemma invoke_fst: "fst (invoke req f w) = fst (f (client_state w))"
  by (simp add: invoke_def split: prod.splits)

lemma invoke_trace:
  "trace (snd (invoke req f w)) = trace w @ [Invoked req (err_of (fst (f (client_state w))))]"
  by (simp add: invoke_def split: prod.splits)


lemma logs_one_invoke: "logs_one (invoke req f)"
  unfolding logs_one_def by (auto simp: invoke_trace invoke_fst)

lemma call_DoContext_fst:
  "fst (call_DoContext cl ctx args u) = fst (DoContext cl (ctx_done ctx u) args (client_state u))"
  by (simp add: call_DoContext_def invoke_fst)

lemma call_DoContext_trace:
  "trace (snd (call_DoContext cl ctx args u)) =
     trace u @ [Invoked (DoReq (ctx_done ctx u) args) (err_of (fst (call_DoContext cl ctx args u)))]"
  by (simp add: call_DoContext_def invoke_trace invoke_fst)


lemma logs_one_call_DoContext: "logs_one (call_DoContext cl ctx args)"
  unfolding logs_one_def by (auto simp: call_DoContext_trace)

lemma invocations_simps [simp]:
  "invocations [] = 0"
  "invocations (Invoked q e # evs) = Suc (invocations evs)"
  "invocations (Slept d # evs) = invocations evs"
  "invocations (xs @ ys) = invocations xs + invocations ys"
  by (simp_all add: invocations_def)

lemma sleeps_simps [simp]:
  "sleeps [] = 0"
  "sleeps (Invoked q e # evs) = sleeps evs"
  "sleeps (Slept d # evs) = Suc (sleeps evs)"
  "sleeps (xs @ ys) = sleeps xs + sleeps ys"
  by (simp_all add: sleeps_def)

lemma sleep_trace: "trace (sleep d w) = trace w @ [Slept d]"
  by (simp add: sleep_def)


lemma retry_loop_stop:
  "\<not> (i \<le> n \<and> isl res) \<Longrightarrow> retry_loop call n p i res w = Some (res, w)"
  by (subst retry_loop.simps) auto

lemma retry_loop_step:
  "i \<le> n \<Longrightarrow> isl res \<Longrightarrow>
   retry_loop call n p i res w =
     retry_loop call n p (next_counter i) (fst (call (sleep p w))) (snd (call (sleep p w)))"
  by (subst retry_loop.simps) (simp add: Let_def)

lemma next_counter_below: "i \<le> n \<Longrightarrow> n < 2 ^ 63 - 1 \<Longrightarrow> next_counter i = i + 1"
  by (simp add: next_counter_def)

text \<open>
  The loop against the policy. With \<^verbatim>\<open>retries\<close> below the largest \<^verbatim>\<open>int\<close> the counter
  never wraps, the loop ends, and what it returns is one of the attempts of the policy:
  every attempt before it failed, and it succeeded or the counter ran out.
\<close>

lemma retry_loop_attempts:
  assumes "n < 2 ^ 63 - 1"
  shows "\<exists>k. retry_loop call n p i (fst (attempt call p w m)) (snd (attempt call p w m)) =
        Some (attempt call p w (m + k)) \<and>
      int k \<le> max 0 (n + 1 - i) \<and>
      (\<forall>j<k. isl (fst (attempt call p w (m + j)))) \<and>
      (isl (fst (attempt call p w (m + k))) \<longrightarrow> int k = max 0 (n + 1 - i))"
proof (induction "nat (n + 1 - i)" arbitrary: i m)
  case 0
  then have "\<not> i \<le> n" by simp
  then have "retry_loop call n p i (fst (attempt call p w m)) (snd (attempt call p w m)) =
      Some (attempt call p w (m + 0))"
    by (simp add: retry_loop_stop)
  moreover have "int 0 = max 0 (n + 1 - i)" using 0 by simp
  ultimately show ?case by (intro exI [of _ 0]) simp
next
  case (Suc d)
  then have le: "i \<le> n" by simp
  show ?case
  proof (cases "isl (fst (attempt call p w m))")
    case False
    then have "retry_loop call n p i (fst (attempt call p w m)) (snd (attempt call p w m)) =
        Some (attempt call p w (m + 0))"
      by (simp add: retry_loop_stop)
    with False show ?thesis by (intro exI [of _ 0]) simp
  next
    case True
    have nc: "next_counter i = i + 1" using le assms by (rule next_counter_below)
    have step: "retry_loop call n p i (fst (attempt call p w m)) (snd (attempt call p w m)) =
        retry_loop call n p (i + 1) (fst (attempt call p w (Suc m))) (snd (attempt call p w (Suc m)))"
      using retry_loop_step [OF le True, of call p "snd (attempt call p w m)"] nc by simp
    from Suc.hyps(2) have "d = nat (n + 1 - (i + 1))" by simp
    from Suc.hyps(1) [OF this, of "Suc m"]
    obtain k where k:
      "retry_loop call n p (i + 1) (fst (attempt call p w (Suc m))) (snd (attempt call p w (Suc m))) =
        Some (attempt call p w (Suc m + k))"
      "int k \<le> max 0 (n + 1 - (i + 1))"
      "\<forall>j<k. isl (fst (attempt call p w (Suc m + j)))"
      "isl (fst (attempt call p w (Suc m + k))) \<longrightarrow> int k = max 0 (n + 1 - (i + 1))"
      by blast
    have 1: "retry_loop call n p i (fst (attempt call p w m)) (snd (attempt call p w m)) =
        Some (attempt call p w (m + Suc k))"
      using step k(1) by simp
    have 2: "int (Suc k) \<le> max 0 (n + 1 - i)" using k(2) le by simp
    have 3: "\<forall>j<Suc k. isl (fst (attempt call p w (m + j)))"
    proof (intro allI impI)
      fix j assume "j < Suc k"
      show "isl (fst (attempt call p w (m + j)))"
      proof (cases j)
        case 0
        with True show ?thesis by simp
      next
        case (Suc j')
        with \<open>j < Suc k\<close> have "j' < k" by simp
        with k(3) have "isl (fst (attempt call p w (Suc m + j')))" by blast
        with Suc show ?thesis by simp
      qed
    qed
    have 4: "isl (fst (attempt call p w (m + Suc k))) \<longrightarrow> int (Suc k) = max 0 (n + 1 - i)"
      using k(4) le by simp
    from 1 2 3 4 show ?thesis by blast
  qed
qed

lemma with_retries_attempts:
  assumes "n < 2 ^ 63 - 1"
  shows "\<exists>k. with_retries call n p w = Some (attempt call p w k) \<and>
      int k \<le> max 0 (n + 1) \<and>
      (\<forall>j<k. isl (fst (attempt call p w j))) \<and>
      (isl (fst (attempt call p w k)) \<longrightarrow> int k = max 0 (n + 1))"
proof -
  have "with_retries call n p w =
      retry_loop call n p 0 (fst (attempt call p w 0)) (snd (attempt call p w 0))"
    by (simp add: with_retries_def Let_def)
  with retry_loop_attempts [OF assms, of call p 0 w 0] show ?thesis by simp
qed

lemma attempt_trace:
  assumes "logs_one call"
  shows "\<exists>evs req. trace (snd (attempt call p w k)) = trace w @ evs \<and>
      invocations evs = Suc k \<and> sleeps evs = k \<and>
      last evs = Invoked req (err_of (fst (attempt call p w k)))"
proof (induction k)
  case 0
  from assms have "\<exists>req. trace (snd (call w)) = trace w @ [Invoked req (err_of (fst (call w)))]"
    unfolding logs_one_def by (rule spec)
  then obtain req where "trace (snd (call w)) = trace w @ [Invoked req (err_of (fst (call w)))]" ..
  then show ?case by (intro exI [of _ "[Invoked req (err_of (fst (call w)))]"] exI [of _ req]) simp
next
  case (Suc k)
  then obtain evs where evs: "trace (snd (attempt call p w k)) = trace w @ evs"
    "invocations evs = Suc k" "sleeps evs = k"
    by blast
  let ?u = "sleep p (snd (attempt call p w k))"
  from assms have "\<exists>req. trace (snd (call ?u)) = trace ?u @ [Invoked req (err_of (fst (call ?u)))]"
    unfolding logs_one_def by (rule spec)
  then obtain req where req: "trace (snd (call ?u)) = trace ?u @ [Invoked req (err_of (fst (call ?u)))]" ..
  let ?all = "evs @ [Slept p, Invoked req (err_of (fst (call ?u)))]"
  have "trace (snd (attempt call p w (Suc k))) = trace w @ ?all"
    using req evs(1) by (simp add: sleep_trace)
  moreover have "invocations ?all = Suc (Suc k)" "sleeps ?all = Suc k" using evs(2,3) by simp_all
  moreover have "last ?all = Invoked req (err_of (fst (attempt call p w (Suc k))))" by simp
  ultimately show ?case by blast
qed

lemma with_retries_bound:
  assumes "logs_one call" and "n < 2 ^ 63 - 1"
  shows "\<exists>res w' evs req. with_retries call n p w = Some (res, w') \<and>
     trace w' = trace w @ evs \<and>
     invocations evs \<le> Suc (nat (n + 1)) \<and> Suc (sleeps evs) = invocations evs \<and>
     last evs = Invoked req (err_of res)"
proof -
  from with_retries_attempts [OF assms(2), of call p w]
  obtain k where k: "with_retries call n p w = Some (attempt call p w k)" "int k \<le> max 0 (n + 1)"
    by blast
  from attempt_trace [OF assms(1), of p w k]
  obtain evs req where evs: "trace (snd (attempt call p w k)) = trace w @ evs"
    "invocations evs = Suc k" "sleeps evs = k"
    "last evs = Invoked req (err_of (fst (attempt call p w k)))"
    by blast
  from k(2) have "k \<le> nat (n + 1)" by simp
  with evs have "invocations evs \<le> Suc (nat (n + 1))" "Suc (sleeps evs) = invocations evs"
    by simp_all
  with k(1) evs(1,4) show ?thesis
    by (intro exI [of _ "fst (attempt call p w k)"] exI [of _ "snd (attempt call p w k)"]
        exI [of _ evs] exI [of _ req]) simp
qed

lemma with_retries_success:
  assumes "fst (call w) = Inr v"
  shows "with_retries call n p w = Some (call w)"
proof -
  from assms have "\<not> (0 \<le> n \<and> isl (fst (call w)))" by simp
  then have "retry_loop call n p 0 (fst (call w)) (snd (call w)) = Some (fst (call w), snd (call w))"
    by (rule retry_loop_stop)
  then show ?thesis by (simp add: with_retries_def Let_def)
qed

lemma with_retries_returns:
  assumes "n < 2 ^ 63 - 1"
  shows "\<exists>res w1. with_retries call n p w = Some (res, w1)"
proof -
  from with_retries_attempts [OF assms, of call p w]
  obtain k where "with_retries call n p w = Some (attempt call p w k)" by blast
  then show ?thesis by (metis prod.collapse)
qed

text \<open>
  C3. A retry wrapper with \<^verbatim>\<open>retries\<close> set to \<open>r\<close> should call the operation at most
  \<open>r + 1\<close> times and sleep at most \<open>r\<close> times; the field is documented as "the maximum
  number of retries before abandoning a request". The loops run while \<open>i \<le> r\<close>, which
  allows \<open>r + 1\<close> further calls after the first: lemma \<open>with_retries_bound\<close> is the bound
  the code keeps, \<open>r + 2\<close> calls and one delay fewer than calls, and lemma
  \<open>with_retries_success\<close> is the part that holds, no call after a success. Run with
  \<open>r = 0\<close> against a store that fails every call, the command path and the \<^verbatim>\<open>keys\<close>
  operator each call twice and sleep once.
\<close>

theorem retries_zero_two_attempts:
  "retries (command_proc 0) = 0 \<and>
   run_trace (execRaw example_library (command_proc 0) None 0 [plain ''x''] (plain ''x'') (start 5)) =
     Some [Invoked (DoReq False incrby_args) (Some (Opaque ''i/o timeout'')), Slept 500,
      Invoked (DoReq False incrby_args) (Some (Opaque ''i/o timeout''))] \<and>
   map_option invocations (run_trace (execRaw example_library (command_proc 0) None 0 [plain ''x'']
     (plain ''x'') (start 5))) = Some 2 \<and>
   map_option sleeps (run_trace (execRaw example_library (command_proc 0) None 0 [plain ''x'']
     (plain ''x'') (start 5))) = Some 1 \<and>
   retries (operator_proc OpKeys 0) = 0 \<and>
   run_trace (newRedisKeysOperator (operator_proc OpKeys 0) ''k'' (plain ''x'') (start 5)) =
     Some [Invoked (KeysReq ''k'') (Some (Opaque ''i/o timeout'')), Slept 500,
      Invoked (KeysReq ''k'') (Some (Opaque ''i/o timeout''))]"
proof -
  have t: "run_trace (execRaw example_library (command_proc 0) None 0 [plain ''x''] (plain ''x'') (start 5)) =
     Some [Invoked (DoReq False incrby_args) (Some (Opaque ''i/o timeout'')), Slept 500,
      Invoked (DoReq False incrby_args) (Some (Opaque ''i/o timeout''))]"
    by (simp add: rex_defs run_defs retry_loop.simps)
  have k: "run_trace (newRedisKeysOperator (operator_proc OpKeys 0) ''k'' (plain ''x'') (start 5)) =
     Some [Invoked (KeysReq ''k'') (Some (Opaque ''i/o timeout'')), Slept 500,
      Invoked (KeysReq ''k'') (Some (Opaque ''i/o timeout''))]"
    by (simp add: rex_defs run_defs retry_loop.simps)
  have r: "retries (command_proc 0) = 0" "retries (operator_proc OpKeys 0) = 0"
    by (simp_all add: command_proc_def operator_proc_def)
  show ?thesis unfolding t k using r by simp
qed

subsection \<open>Cancellation\<close>




subsection \<open>One message at a time\<close>

lemma SetBytes_item_error: "item_error (SetBytes b m) = item_error m"
  by (simp add: SetBytes_def)

lemma SetStructured_item_error: "item_error (SetStructured v m) = item_error m"
  by (simp add: SetStructured_def)

lemma SetError_item_error: "item_error (SetError e m) = Some e"
  by (simp add: SetError_def)

lemma run_operator_keeps_error:
  "run_operator op L r k part w = Returns (Inr p, w1) \<Longrightarrow> item_error p = item_error part"
  by (cases op)
    (auto simp: newRedisKeysOperator_def newRedisSCardOperator_def newRedisSAddOperator_def
      newRedisIncrByOperator_def SetBytes_item_error SetStructured_item_error
      split: sum.splits prod.splits option.splits)

lemma execRaw_keeps_error:
  "execRaw L r ctx i inBatch part w = Returns (Inr p, w1) \<Longrightarrow> item_error p = item_error part"
  by (auto simp: execRaw_def Let_def SetStructured_item_error
      split: sum.splits prod.splits ivalue.splits option.splits)

lemma run_operator_returns:
  assumes "retries r < 2 ^ 63 - 1"
  shows "\<exists>res w1. run_operator op L r k part w = Returns (res, w1)"
proof -
  have wr: "\<exists>res w1. with_retries call (retries r) (retryPeriod r) w = Some (res, w1)"
    for call :: "'a rworld \<Rightarrow> (error + 'b) \<times> 'a rworld"
    using assms by (rule with_retries_returns)
  show ?thesis
  proof (cases op)
    case OpKeys
    from wr [of "invoke (KeysReq k) (Keys (client r) k)"] show ?thesis
      unfolding OpKeys by (auto simp: newRedisKeysOperator_def split: sum.splits)
  next
    case OpSAdd
    show ?thesis
    proof (cases "AsBytes L part")
      case (Inl e)
      then show ?thesis unfolding OpSAdd by (simp add: newRedisSAddOperator_def)
    next
      case (Inr b)
      from wr [of "invoke (SAddReq k b) (SAdd (client r) k b)"] show ?thesis
        unfolding OpSAdd using Inr by (auto simp: newRedisSAddOperator_def split: sum.splits)
    qed
  next
    case OpSCard
    from wr [of "invoke (SCardReq k) (SCard (client r) k)"] show ?thesis
      unfolding OpSCard by (auto simp: newRedisSCardOperator_def split: sum.splits)
  next
    case OpIncrBy
    show ?thesis
    proof (cases "AsBytes L part")
      case (Inl e)
      then show ?thesis unfolding OpIncrBy by (simp add: newRedisIncrByOperator_def)
    next
      case b: (Inr b)
      show ?thesis
      proof (cases "Atoi b")
        case (Inl e)
        with b show ?thesis unfolding OpIncrBy by (simp add: newRedisIncrByOperator_def)
      next
        case (Inr v)
        from wr [of "invoke (IncrByReq k v) (IncrBy (client r) k v)"] show ?thesis
          unfolding OpIncrBy using b Inr
          by (auto simp: newRedisIncrByOperator_def split: sum.splits)
      qed
    qed
  qed
qed

lemma execRaw_returns:
  assumes "retries r < 2 ^ 63 - 1" and "argsMapping r = Some query"
    and "query i inBatch \<noteq> Inr None"
  shows "\<exists>res w1. execRaw L r ctx i inBatch part w = Returns (res, w1)"
proof (cases "query i inBatch")
  case (Inl e)
  with assms(2) show ?thesis by (simp add: execRaw_def)
next
  case (Inr m)
  with assms(3) obtain resMsg where m: "query i inBatch = Inr (Some resMsg)" by (cases m) auto
  show ?thesis
  proof (cases "AsStructured L resMsg")
    case (Inl e)
    with assms(2) m show ?thesis by (simp add: execRaw_def)
  next
    case s: (Inr iargs)
    show ?thesis
    proof (cases "\<exists>args0. iargs = VArray args0")
      case False
      with assms(2) m s show ?thesis by (cases iargs) (simp_all add: execRaw_def)
    next
      case True
      then obtain args0 where a: "iargs = VArray args0" ..
      let ?args = "VString (command r i inBatch) # map (normalise L) args0"
      from with_retries_returns [OF assms(1), of "call_DoContext (client r) ctx ?args" "retryPeriod r" w]
      obtain res w1 where
        "with_retries (call_DoContext (client r) ctx ?args) (retries r) (retryPeriod r) w = Some (res, w1)"
        by blast
      with assms(2) m s a show ?thesis
        by (cases res) (simp_all add: execRaw_def Let_def)
    qed
  qed
qed

lemma dispatch_returns:
  assumes "retries r < 2 ^ 63 - 1"
    and "operator r \<noteq> None \<longrightarrow> proc_key r \<noteq> None"
    and "operator r = None \<longrightarrow>
      (\<exists>query. argsMapping r = Some query \<and> query i inBatch \<noteq> Inr None)"
  shows "\<exists>res w1. dispatch L r ctx inBatch i part w = Returns (res, w1)"
proof (cases "operator r")
  case None
  with assms(3) obtain query where "argsMapping r = Some query" "query i inBatch \<noteq> Inr None"
    by blast
  from execRaw_returns [OF assms(1) this] show ?thesis using None by (simp add: dispatch_def)
next
  case (Some op)
  with assms(2) obtain resolve where "proc_key r = Some resolve" by auto
  with Some run_operator_returns [OF assms(1)] show ?thesis by (simp add: dispatch_def)
qed

lemma dispatch_keeps_error:
  "dispatch L r ctx inBatch i part w = Returns (Inr p, w1) \<Longrightarrow> item_error p = item_error part"
  by (auto simp: dispatch_def split: option.splits
      dest: run_operator_keeps_error execRaw_keeps_error)

lemma process_part_dispatch:
  "process_part L r ctx inBatch i part w =
     (case dispatch L r ctx inBatch i part w of
        Returns (Inl e, w1) \<Rightarrow>
          Returns (SetError (if operator r = None then e else OperatorFailed e) part, w1)
      | Returns (Inr p, w1) \<Rightarrow> Returns (p, w1)
      | Panics \<Rightarrow> Panics
      | Diverges \<Rightarrow> Diverges)"
  by (simp add: process_part_def dispatch_def Let_def
      split: option.splits run.splits sum.splits prod.splits)

lemma process_parts_returns:
  assumes "\<forall>j<length ps. \<forall>u. \<exists>y. process_part L r ctx inBatch (index + j) (ps ! j) u = Returns y"
  shows "\<exists>out w'. process_parts L r ctx inBatch index ps w = Returns (out, w')"
  using assms
proof (induction ps arbitrary: index w)
  case Nil
  show ?case by simp
next
  case (Cons p ps)
  from Cons.prems have "\<forall>u. \<exists>y. process_part L r ctx inBatch (index + 0) ((p # ps) ! 0) u = Returns y"
    by blast
  then obtain p' w1 where p': "process_part L r ctx inBatch index p w = Returns (p', w1)"
    by (metis add.right_neutral nth_Cons_0 prod.collapse)
  have "\<forall>j<length ps. \<forall>u. \<exists>y. process_part L r ctx inBatch (Suc index + j) (ps ! j) u = Returns y"
  proof (intro allI impI)
    fix j u assume "j < length ps"
    then have "Suc j < length (p # ps)" by simp
    with Cons.prems have "\<exists>y. process_part L r ctx inBatch (index + Suc j) ((p # ps) ! Suc j) u = Returns y"
      by blast
    then show "\<exists>y. process_part L r ctx inBatch (Suc index + j) (ps ! j) u = Returns y" by simp
  qed
  from Cons.IH [OF this, of w1] obtain out w' where
    "process_parts L r ctx inBatch (Suc index) ps w1 = Returns (out, w')" by blast
  with p' show ?case by simp
qed

lemma process_parts_take:
  "process_parts L r ctx inBatch index ps w = Returns (out, w') \<Longrightarrow> i < length ps \<Longrightarrow>
   length out = length ps \<and>
   (\<exists>wi wi'. process_parts L r ctx inBatch index (take i ps) w = Returns (take i out, wi) \<and>
      process_part L r ctx inBatch (index + i) (ps ! i) wi = Returns (out ! i, wi'))"
proof (induction ps arbitrary: index w out i)
  case Nil
  then show ?case by simp
next
  case (Cons p ps)
  from Cons.prems(1) obtain p' w1 rest where
    p': "process_part L r ctx inBatch index p w = Returns (p', w1)"
    and rest: "process_parts L r ctx inBatch (Suc index) ps w1 = Returns (rest, w')"
    and out: "out = p' # rest"
    by (auto split: run.splits prod.splits)
  show ?case
  proof (cases i)
    case 0
    have "length rest = length ps"
    proof (cases ps)
      case Nil
      with rest show ?thesis by simp
    next
      case (Cons q qs)
      then have "0 < length ps" by simp
      from Cons.IH [OF rest this] show ?thesis by simp
    qed
    with 0 p' out show ?thesis by simp
  next
    case (Suc i')
    with Cons.prems(2) have "i' < length ps" by simp
    from Cons.IH [OF rest this] obtain wi wi' where
      "length rest = length ps"
      "process_parts L r ctx inBatch (Suc index) (take i' ps) w1 = Returns (take i' rest, wi)"
      "process_part L r ctx inBatch (Suc index + i') (ps ! i') wi = Returns (rest ! i', wi')"
      by blast
    with Suc p' out show ?thesis by simp
  qed
qed

lemma process_parts_length:
  "process_parts L r ctx inBatch index ps w = Returns (out, w') \<Longrightarrow> length out = length ps"
proof (induction ps arbitrary: index w out)
  case Nil
  then show ?case by simp
next
  case (Cons p ps)
  from Cons.prems obtain p' w1 rest where
    "process_parts L r ctx inBatch (Suc index) ps w1 = Returns (rest, w')" "out = p' # rest"
    by (auto split: run.splits prod.splits)
  with Cons.IH show ?case by simp
qed

lemma ProcessBatch_configured:
  assumes bound: "retries r < 2 ^ 63 - 1"
    and key: "operator r \<noteq> None \<longrightarrow> proc_key r \<noteq> None"
    and mapping: "operator r = None \<longrightarrow>
      (\<exists>query. argsMapping r = Some query \<and> (\<forall>i<length inBatch. query i inBatch \<noteq> Inr None))"
  shows "\<exists>out w'. ProcessBatch L r ctx inBatch w = Returns (([out], None), w') \<and>
     length out = length inBatch \<and>
     (\<forall>i<length inBatch. \<exists>wi res wi'.
        process_parts L r ctx inBatch 0 (take i inBatch) w = Returns (take i out, wi) \<and>
        dispatch L r ctx inBatch i (inBatch ! i) wi = Returns (res, wi') \<and>
        (case res of
           Inl e \<Rightarrow> out ! i =
             SetError (if operator r = None then e else OperatorFailed e) (inBatch ! i)
         | Inr p \<Rightarrow> out ! i = p) \<and>
        (item_error (out ! i) \<noteq> None \<longleftrightarrow> isl res \<or> item_error (inBatch ! i) \<noteq> None))"
proof -
  have disp: "\<exists>res w1. dispatch L r ctx inBatch i part u = Returns (res, w1)"
    if "i < length inBatch" for i part u
  proof -
    from mapping that have "operator r = None \<longrightarrow>
        (\<exists>query. argsMapping r = Some query \<and> query i inBatch \<noteq> Inr None)"
      by blast
    with bound key show ?thesis by (rule dispatch_returns)
  qed
  have part: "\<exists>y. process_part L r ctx inBatch i part u = Returns y"
    if "i < length inBatch" for i part u
  proof -
    from disp [OF that, of part u] obtain res w1 where
      "dispatch L r ctx inBatch i part u = Returns (res, w1)" by blast
    then show ?thesis by (cases res) (simp_all add: process_part_dispatch)
  qed
  have "\<forall>j<length inBatch. \<forall>u. \<exists>y.
      process_part L r ctx inBatch (0 + j) (inBatch ! j) u = Returns y"
    using part by simp
  then obtain out w' where out: "process_parts L r ctx inBatch 0 inBatch w = Returns (out, w')"
    using process_parts_returns by blast
  then have pb: "ProcessBatch L r ctx inBatch w = Returns (([out], None), w')"
    by (simp add: ProcessBatch_def Copy_def)
  have len: "length out = length inBatch" using out by (rule process_parts_length)
  have each: "\<exists>wi res wi'.
        process_parts L r ctx inBatch 0 (take i inBatch) w = Returns (take i out, wi) \<and>
        dispatch L r ctx inBatch i (inBatch ! i) wi = Returns (res, wi') \<and>
        (case res of
           Inl e \<Rightarrow> out ! i =
             SetError (if operator r = None then e else OperatorFailed e) (inBatch ! i)
         | Inr p \<Rightarrow> out ! i = p) \<and>
        (item_error (out ! i) \<noteq> None \<longleftrightarrow> isl res \<or> item_error (inBatch ! i) \<noteq> None)"
    if i: "i < length inBatch" for i
  proof -
    from process_parts_take [OF out i] obtain wi wi' where
      pre: "process_parts L r ctx inBatch 0 (take i inBatch) w = Returns (take i out, wi)"
      and pp: "process_part L r ctx inBatch i (inBatch ! i) wi = Returns (out ! i, wi')"
      by auto
    from disp [OF i, of "inBatch ! i" wi] obtain res w1 where
      d: "dispatch L r ctx inBatch i (inBatch ! i) wi = Returns (res, w1)" by blast
    show ?thesis
    proof (cases res)
      case (Inl e)
      with d pp have "out ! i =
          SetError (if operator r = None then e else OperatorFailed e) (inBatch ! i)"
        by (simp add: process_part_dispatch)
      with Inl pre d show ?thesis by (auto simp: SetError_item_error)
    next
      case (Inr p)
      with d pp have o: "out ! i = p" by (simp add: process_part_dispatch)
      from d Inr have "item_error p = item_error (inBatch ! i)"
        by (auto dest: dispatch_keeps_error)
      with Inr pre d o show ?thesis by auto
    qed
  qed
  from pb len each show ?thesis by blast
qed

text \<open>
  C1. Take a processor whose mode has its field set (the key with an operator, the
  arguments mapping without), whose mapping gives a message at every index where it gives
  no error, and whose \<^verbatim>\<open>retries\<close> is below the largest \<^verbatim>\<open>int\<close>. In either mode it returns
  one batch of the length of its input, and every index is handled in the world left by
  the indices before it, whatever happened to them. If handling index \<open>i\<close> fails, the
  message at \<open>i\<close> is the input message with the error attached (wrapped as an operator
  failure in operator mode), and no other message is touched by that failure; if it
  succeeds, the message at \<open>i\<close> is the result, which keeps whatever item error the input
  message had. So the indices that carry an item error in the output are exactly those
  that failed together with those whose input message already carried one.
\<close>

theorem item_isolation:
  assumes "retries r < 2 ^ 63 - 1"
    and "operator r \<noteq> None \<longrightarrow> proc_key r \<noteq> None"
    and "operator r = None \<longrightarrow>
      (\<exists>query. argsMapping r = Some query \<and> (\<forall>i<length inBatch. query i inBatch \<noteq> Inr None))"
  shows "\<exists>out w'. ProcessBatch L r ctx inBatch w = Returns (([out], None), w') \<and>
     length out = length inBatch \<and>
     (\<forall>i<length inBatch. \<exists>wi res wi'.
        process_parts L r ctx inBatch 0 (take i inBatch) w = Returns (take i out, wi) \<and>
        dispatch L r ctx inBatch i (inBatch ! i) wi = Returns (res, wi') \<and>
        (case res of
           Inl e \<Rightarrow> out ! i =
             SetError (if operator r = None then e else OperatorFailed e) (inBatch ! i)
         | Inr p \<Rightarrow> out ! i = p) \<and>
        (item_error (out ! i) \<noteq> None \<longleftrightarrow> isl res \<or> item_error (inBatch ! i) \<noteq> None))"
  using assms by (rule ProcessBatch_configured)

theorem item_isolation_witness:
  "(\<exists>out w'. ProcessBatch example_library (operator_proc OpIncrBy 3) None three_messages (start 0) =
       Returns (([out], None), w') \<and>
     length out = 3 \<and> out ! 1 = SetError (OperatorFailed (NumError ''x'')) (plain ''x'') \<and>
     item_error (out ! 2) = None) \<and>
   (\<exists>out w'. ProcessBatch example_library (command_proc 0) None two_messages (start 2) =
       Returns (([out], None), w') \<and>
     length out = 2 \<and> out ! 0 = SetError (Opaque ''i/o timeout'') (plain ''a''))"
proof (rule conjI)
  let ?L = example_library
  let ?r = "operator_proc OpIncrBy 3"
  have h1: "retries ?r < 2 ^ 63 - 1" by (simp add: operator_proc_def)
  have h2: "operator ?r \<noteq> None \<longrightarrow> proc_key ?r \<noteq> None" by (simp add: operator_proc_def)
  have h3: "operator ?r = None \<longrightarrow>
      (\<exists>query. argsMapping ?r = Some query \<and>
         (\<forall>i<length three_messages. query i three_messages \<noteq> Inr None))"
    by (simp add: operator_proc_def)
  have l: "length three_messages = 3" by (simp add: three_messages_def)
  from item_isolation [OF h1 h2 h3, of ?L None "start 0"]
  obtain out w' where pb: "ProcessBatch ?L ?r None three_messages (start 0) = Returns (([out], None), w')"
    and len: "length out = length three_messages"
    and each: "\<forall>i<length three_messages. \<exists>wi res wi'.
        process_parts ?L ?r None three_messages 0 (take i three_messages) (start 0) =
          Returns (take i out, wi) \<and>
        dispatch ?L ?r None three_messages i (three_messages ! i) wi = Returns (res, wi') \<and>
        (case res of
           Inl e \<Rightarrow> out ! i =
             SetError (if operator ?r = None then e else OperatorFailed e) (three_messages ! i)
         | Inr p \<Rightarrow> out ! i = p) \<and>
        (item_error (out ! i) \<noteq> None \<longleftrightarrow> isl res \<or> item_error (three_messages ! i) \<noteq> None)"
    by blast
  have d1: "dispatch ?L ?r None three_messages 1 (three_messages ! 1) wi =
      Returns (Inl (NumError ''x''), wi)" for wi
    by (simp add: rex_defs run_defs)
  have i1: "(1::nat) < length three_messages" using l by simp
  from each [rule_format, OF i1] obtain wi1 res1 wi1' where
    r1: "dispatch ?L ?r None three_messages 1 (three_messages ! 1) wi1 = Returns (res1, wi1')"
    and c1: "case res1 of
           Inl e \<Rightarrow> out ! 1 =
             SetError (if operator ?r = None then e else OperatorFailed e) (three_messages ! 1)
         | Inr p \<Rightarrow> out ! 1 = p"
    by blast
  from r1 have "res1 = Inl (NumError ''x'')" unfolding d1 by simp
  with c1 have o1: "out ! 1 = SetError (OperatorFailed (NumError ''x'')) (plain ''x'')"
    by (simp add: operator_proc_def three_messages_def)
  have pre2: "\<exists>pre. process_parts ?L ?r None three_messages 0 (take 2 three_messages) (start 0) =
      Returns (pre, \<lparr>client_state = 0, now = 0, trace = [Invoked (IncrByReq ''k'' 5) None]\<rparr>)"
    by (simp add: rex_defs run_defs retry_loop.simps)
  have d2: "\<exists>p w1. dispatch ?L ?r None three_messages 2 (three_messages ! 2)
      \<lparr>client_state = 0, now = 0, trace = [Invoked (IncrByReq ''k'' 5) None]\<rparr> = Returns (Inr p, w1)"
    by (simp add: rex_defs run_defs retry_loop.simps)
  have e2: "item_error (three_messages ! 2) = None" by (simp add: rex_defs)
  have i2: "(2::nat) < length three_messages" using l by simp
  from each [rule_format, OF i2] obtain wi2 res2 wi2' where
    p2: "process_parts ?L ?r None three_messages 0 (take 2 three_messages) (start 0) =
          Returns (take 2 out, wi2)"
    and r2: "dispatch ?L ?r None three_messages 2 (three_messages ! 2) wi2 = Returns (res2, wi2')"
    and c2: "item_error (out ! 2) \<noteq> None \<longleftrightarrow> isl res2 \<or> item_error (three_messages ! 2) \<noteq> None"
    by blast
  from pre2 p2 have "wi2 = \<lparr>client_state = 0, now = 0, trace = [Invoked (IncrByReq ''k'' 5) None]\<rparr>"
    by auto
  with d2 r2 have "\<not> isl res2" by auto
  with c2 e2 have o2: "item_error (out ! 2) = None" by simp
  from pb len l o1 o2 show "\<exists>out w'. ProcessBatch ?L ?r None three_messages (start 0) =
       Returns (([out], None), w') \<and>
     length out = 3 \<and> out ! 1 = SetError (OperatorFailed (NumError ''x'')) (plain ''x'') \<and>
     item_error (out ! 2) = None"
    by auto
next
  let ?L = example_library
  let ?r = "command_proc 0"
  have h1: "retries ?r < 2 ^ 63 - 1" by (simp add: command_proc_def)
  have h2: "operator ?r \<noteq> None \<longrightarrow> proc_key ?r \<noteq> None" by (simp add: command_proc_def)
  have h3: "operator ?r = None \<longrightarrow>
      (\<exists>query. argsMapping ?r = Some query \<and>
         (\<forall>i<length two_messages. query i two_messages \<noteq> Inr None))"
    by (simp add: command_proc_def)
  have l: "length two_messages = 2" by (simp add: two_messages_def)
  from item_isolation [OF h1 h2 h3, of ?L None "start 2"]
  obtain out w' where pb: "ProcessBatch ?L ?r None two_messages (start 2) = Returns (([out], None), w')"
    and len: "length out = length two_messages"
    and each: "\<forall>i<length two_messages. \<exists>wi res wi'.
        process_parts ?L ?r None two_messages 0 (take i two_messages) (start 2) =
          Returns (take i out, wi) \<and>
        dispatch ?L ?r None two_messages i (two_messages ! i) wi = Returns (res, wi') \<and>
        (case res of
           Inl e \<Rightarrow> out ! i =
             SetError (if operator ?r = None then e else OperatorFailed e) (two_messages ! i)
         | Inr p \<Rightarrow> out ! i = p) \<and>
        (item_error (out ! i) \<noteq> None \<longleftrightarrow> isl res \<or> item_error (two_messages ! i) \<noteq> None)"
    by blast
  have d0: "\<exists>w1. dispatch ?L ?r None two_messages 0 (two_messages ! 0) (start 2) =
      Returns (Inl (Opaque ''i/o timeout''), w1)"
    by (simp add: rex_defs run_defs retry_loop.simps two_messages_def)
  have i0: "(0::nat) < length two_messages" using l by simp
  from each [rule_format, OF i0] obtain wi0 res0 wi0' where
    p0: "process_parts ?L ?r None two_messages 0 (take 0 two_messages) (start 2) =
          Returns (take 0 out, wi0)"
    and r0: "dispatch ?L ?r None two_messages 0 (two_messages ! 0) wi0 = Returns (res0, wi0')"
    and c0: "case res0 of
           Inl e \<Rightarrow> out ! 0 =
             SetError (if operator ?r = None then e else OperatorFailed e) (two_messages ! 0)
         | Inr p \<Rightarrow> out ! 0 = p"
    by blast
  from p0 have "wi0 = start 2" by simp
  with d0 r0 have "res0 = Inl (Opaque ''i/o timeout'')" by auto
  with c0 have "out ! 0 = SetError (Opaque ''i/o timeout'') (plain ''a'')"
    by (simp add: command_proc_def two_messages_def)
  with pb len l show "\<exists>out w'. ProcessBatch ?L ?r None two_messages (start 2) =
       Returns (([out], None), w') \<and>
     length out = 2 \<and> out ! 0 = SetError (Opaque ''i/o timeout'') (plain ''a'')"
    by auto
qed

text \<open>
  A message that arrives with an item error and is handled successfully still carries
  that error in the output.
\<close>

theorem earlier_error_survives_success:
  "run_operator OpIncrBy example_library (operator_proc OpIncrBy 3) ''k'' flagged (start 0) =
     Returns (Inr (flagged\<lparr>body := Raw ''5''\<rparr>),
       \<lparr>client_state = 0, now = 0, trace = [Invoked (IncrByReq ''k'' 5) None]\<rparr>) \<and>
   ProcessBatch example_library (operator_proc OpIncrBy 3) None [flagged] (start 0) =
     Returns (([[flagged\<lparr>body := Raw ''5''\<rparr>]], None),
       \<lparr>client_state = 0, now = 0, trace = [Invoked (IncrByReq ''k'' 5) None]\<rparr>) \<and>
   item_error (flagged\<lparr>body := Raw ''5''\<rparr>) = Some (Opaque ''earlier failure'')"
  by (simp add: rex_defs run_defs retry_loop.simps)

text \<open>
  C9. The processor should return exactly one batch and no batch-level error for every
  input batch in both modes, every failure staying on its message. It does so for the
  processors of lemma \<open>ProcessBatch_configured\<close>. \<^verbatim>\<open>execRaw\<close> turns an error of the
  mapping, an error of \<^verbatim>\<open>AsStructured\<close> and a result that is no array into errors of the
  message, but it does not check the message it gets back from the mapping: on a mapping
  that deletes its root the call panics at the first message and returns no batch. It
  panics as well when the arguments mapping, or the key in operator mode, was never set.
\<close>

theorem deleted_mapping_panics:
  "argsMapping deleting_proc = Some (\<lambda>i b. Inr None) \<and>
   ProcessBatch example_library deleting_proc None [plain ''x'', plain ''y''] (start 0) = Panics \<and>
   operator unset_proc = None \<and> argsMapping unset_proc = None \<and>
   ProcessBatch example_library unset_proc None [plain ''x'', plain ''y''] (start 0) = Panics \<and>
   operator keyless_proc = Some OpKeys \<and> proc_key keyless_proc = None \<and>
   ProcessBatch example_library keyless_proc None [plain ''x'', plain ''y''] (start 0) = Panics"
  by (simp add: rex_defs run_defs)

end
